theory Spec2Isabelle
  imports Complex_Main "HOL-Library.Char_ord" "HOL-Library.List_Lexorder"
begin

section \<open>Python values and built-ins used by \<^verbatim>\<open>teuthology/coverage.py\<close>\<close>

text \<open>
  The source is Python 2 (\<^verbatim>\<open>iteritems\<close>, \<^verbatim>\<open>file(...)\<close>). Exceptions are values of
  \<open>error\<close>; a function that may raise returns \<open>error + 'a\<close> with \<open>Inl\<close> the exception.
  \<open>ExternalError\<close> stands for an exception raised inside an external library (the
  database driver), identified by a message.
\<close>

datatype error =
    ValueError
  | TypeError
  | KeyError string
  | AssertionError
  | IndexError
  | UnboundLocalError
  | CalledProcessError int
  | ExternalError string

text \<open>
  A Python float is represented by the decimal it was read from: \<open>Rounded q\<close> is the
  binary64 value nearest to the rational \<open>q\<close>. Two floats read from equal decimals are
  equal; the representation does not identify distinct decimals that round to the same
  binary64 value.
\<close>

datatype pyfloat = Rounded rat | PosInf | NegInf | NaN

subsection \<open>Strings\<close>

definition startswith :: "string \<Rightarrow> string \<Rightarrow> bool" where
  "startswith s p = (take (length p) s = p)"

text \<open>\<^verbatim>\<open>s.find(sub)\<close>: the lowest index at which \<open>sub\<close> occurs in \<open>s\<close>, or \<open>-1\<close>.\<close>

fun py_find :: "string \<Rightarrow> string \<Rightarrow> int" where
  "py_find [] sub = (if sub = [] then 0 else - 1)"
| "py_find (c # cs) sub =
     (if startswith (c # cs) sub then 0
      else (let r = py_find cs sub in if r < 0 then - 1 else r + 1))"

text \<open>\<^verbatim>\<open>s[a:b]\<close>: a negative index counts from the end, and both ends are clamped.\<close>

definition clamp_index :: "nat \<Rightarrow> int \<Rightarrow> nat" where
  "clamp_index n i = (if i < 0 then nat (max 0 (int n + i)) else min n (nat i))"

definition py_slice :: "string \<Rightarrow> int \<Rightarrow> int \<Rightarrow> string" where
  "py_slice s a b =
     (let lo = clamp_index (length s) a; hi = clamp_index (length s) b
      in take (hi - lo) (drop lo s))"

text \<open>
  \<^verbatim>\<open>str.splitlines()\<close> on a byte string: a line ends at \<^verbatim>\<open>\n\<close>, \<^verbatim>\<open>\r\<close> or \<^verbatim>\<open>\r\n\<close>; the
  line breaks are dropped and there is no empty last line after a final line break.
\<close>

fun splitlines_from :: "string \<Rightarrow> string \<Rightarrow> string list" where
  "splitlines_from cur [] = (if cur = [] then [] else [cur])"
| "splitlines_from cur (c # cs) =
     (if c = CHR 0x0A then cur # splitlines_from [] cs
      else if c = CHR 0x0D then
        (case cs of
           [] \<Rightarrow> cur # splitlines_from [] cs
         | d # ds \<Rightarrow>
             (if d = CHR 0x0A then cur # splitlines_from [] ds
              else cur # splitlines_from [] cs))
      else splitlines_from (cur @ [c]) cs)"

definition splitlines :: "string \<Rightarrow> string list" where
  "splitlines s = splitlines_from [] s"

subsection \<open>\<^verbatim>\<open>int(str)\<close> and \<^verbatim>\<open>float(str)\<close>\<close>

definition py_isspace :: "char \<Rightarrow> bool" where
  "py_isspace c = (c = CHR '' '' \<or> c = CHR 0x09 \<or> c = CHR 0x0A \<or> c = CHR 0x0B
                   \<or> c = CHR 0x0C \<or> c = CHR 0x0D)"

definition py_strip :: "string \<Rightarrow> string" where
  "py_strip s = rev (dropWhile py_isspace (rev (dropWhile py_isspace s)))"

text \<open>The code of a character, and the value of a string of decimal digits.\<close>

definition py_ord :: "char \<Rightarrow> int" where
  "py_ord c = of_char c"

definition is_digit :: "char \<Rightarrow> bool" where
  "is_digit c = (48 \<le> py_ord c \<and> py_ord c \<le> 57)"

definition digits_val :: "string \<Rightarrow> int" where
  "digits_val ds = foldl (\<lambda>acc c. 10 * acc + (py_ord c - 48)) 0 ds"

text \<open>An optional sign in front of the rest: \<open>True\<close> when it is a minus.\<close>

fun take_sign :: "string \<Rightarrow> bool \<times> string" where
  "take_sign [] = (False, [])"
| "take_sign (c # cs) =
     (if c = CHR ''-'' then (True, cs)
      else if c = CHR ''+'' then (False, cs)
      else (False, c # cs))"

text \<open>
  \<^verbatim>\<open>int(s)\<close> in base 10: surrounding white space is ignored, then an optional sign and
  one or more decimal digits; anything else raises \<^verbatim>\<open>ValueError\<close>. The result is
  unbounded (Python promotes to \<^verbatim>\<open>long\<close>).
\<close>

definition py_int :: "string \<Rightarrow> error + int" where
  "py_int s =
     (case take_sign (py_strip s) of (neg, ds) \<Rightarrow>
        if ds \<noteq> [] \<and> list_all is_digit ds
        then Inr (if neg then - digits_val ds else digits_val ds)
        else Inl ValueError)"

definition lower_char :: "char \<Rightarrow> char" where
  "lower_char c =
     (if 65 \<le> py_ord c \<and> py_ord c \<le> 90 then char_of (py_ord c + 32) else c)"

text \<open>The exponent part of a decimal literal: empty, or \<^verbatim>\<open>e\<close>, an optional sign and digits.\<close>

definition parse_exponent :: "string \<Rightarrow> error + int" where
  "parse_exponent s =
     (case s of
        [] \<Rightarrow> Inr 0
      | c # cs \<Rightarrow>
          if lower_char c = CHR ''e'' then
            (case take_sign cs of (neg, ds) \<Rightarrow>
               if ds \<noteq> [] \<and> list_all is_digit ds
               then Inr (if neg then - digits_val ds else digits_val ds)
               else Inl ValueError)
          else Inl ValueError)"

definition scale10 :: "int \<Rightarrow> rat" where
  "scale10 e = (if 0 \<le> e then 10 ^ nat e else 1 / 10 ^ nat (- e))"

text \<open>
  \<^verbatim>\<open>float(s)\<close>: surrounding white space is ignored, then an optional sign and either
  \<^verbatim>\<open>inf\<close>, \<^verbatim>\<open>infinity\<close>, \<^verbatim>\<open>nan\<close> (in any case) or a decimal literal with at least
  one digit, an optional point and an optional exponent.
\<close>

definition py_float :: "string \<Rightarrow> error + pyfloat" where
  "py_float s =
     (case take_sign (py_strip s) of (neg, u) \<Rightarrow>
        if map lower_char u = ''inf'' \<or> map lower_char u = ''infinity''
        then Inr (if neg then NegInf else PosInf)
        else if map lower_char u = ''nan'' then Inr NaN
        else
          (let ip = takeWhile is_digit u;
               r1 = dropWhile is_digit u;
               fp = (case r1 of [] \<Rightarrow> [] | c # cs \<Rightarrow>
                       if c = CHR ''.'' then takeWhile is_digit cs else []);
               r2 = (case r1 of [] \<Rightarrow> [] | c # cs \<Rightarrow>
                       if c = CHR ''.'' then dropWhile is_digit cs else r1)
           in if ip = [] \<and> fp = [] then Inl ValueError
              else
                (case parse_exponent r2 of
                   Inl e \<Rightarrow> Inl e
                 | Inr ex \<Rightarrow>
                     (let m = of_int (digits_val (ip @ fp)) * scale10 (ex - int (length fp))
                      in Inr (Rounded (if neg then - m else m))))))"

section \<open>The coverage report parser: \<^verbatim>\<open>read_coverage\<close>\<close>

text \<open>
  An entry of the result list is \<^verbatim>\<open>None\<close> (\<open>None\<close>), the pair \<^verbatim>\<open>(None, None)\<close>
  (\<open>Some (None, None)\<close>) or a pair \<^verbatim>\<open>(cov_num, cov_percent)\<close>.
\<close>

type_synonym cov_pair = "int option \<times> pyfloat option"

type_synonym coverage = "cov_pair option list"

definition prefixes :: "string list" where
  "prefixes = [''  lines......: '', ''  functions..: '', ''  branches...: '']"

text \<open>The body of \<^verbatim>\<open>if line.startswith(prefix):\<close>, up to the value assigned to the slot.\<close>

definition parse_metric :: "string \<Rightarrow> string \<Rightarrow> error + cov_pair" where
  "parse_metric pfx line =
     (if CHR ''%'' \<in> set line then
        (case py_int (py_slice line (py_find line ''('' + 1) (py_find line '' of'')) of
           Inl e \<Rightarrow> Inl e
         | Inr cov_num \<Rightarrow>
             (case py_float (py_slice line (int (length pfx)) (py_find line ''%'')) of
                Inl e \<Rightarrow> Inl e
              | Inr cov_percent \<Rightarrow> Inr (Some cov_num, Some cov_percent)))
      else Inr (None, None))"

text \<open>
  The inner loop \<^verbatim>\<open>for i, prefix in enumerate(prefixes)\<close>: the first prefix the line
  starts with assigns slot \<open>i\<close>, then \<^verbatim>\<open>break\<close>. Assigning past the end of a list
  raises \<^verbatim>\<open>IndexError\<close>.
\<close>

fun match_prefixes :: "string \<Rightarrow> nat \<Rightarrow> string list \<Rightarrow> coverage \<Rightarrow> error + coverage" where
  "match_prefixes line i [] cov = Inr cov"
| "match_prefixes line i (pfx # rest) cov =
     (if startswith line pfx then
        (case parse_metric pfx line of
           Inl e \<Rightarrow> Inl e
         | Inr pair \<Rightarrow>
             if i < length cov then Inr (cov[i := Some pair]) else Inl IndexError)
      else match_prefixes line (Suc i) rest cov)"

text \<open>
  The outer loop over the reversed lines, with \<^verbatim>\<open>if None not in coverage: break\<close> after
  each line.
\<close>

fun scan_lines :: "string list \<Rightarrow> coverage \<Rightarrow> error + coverage" where
  "scan_lines [] cov = Inr cov"
| "scan_lines (line # rest) cov =
     (case match_prefixes line 0 prefixes cov of
        Inl e \<Rightarrow> Inl e
      | Inr cov' \<Rightarrow> if None \<notin> set cov' then Inr cov' else scan_lines rest cov')"

definition read_coverage :: "string \<Rightarrow> error + coverage" where
  "read_coverage output = scan_lines (rev (splitlines output)) [None, None, None]"

section \<open>Dictionaries\<close>

text \<open>
  A \<^verbatim>\<open>dict\<close> with string keys is the list of its items, keys distinct, in the order the
  keys were first stored. Storing under a key that is present replaces the value in
  place. The order in which a Python 2 \<^verbatim>\<open>dict\<close> is iterated is fixed by the keys and the
  order they were stored in, but it is not the order of insertion: it is a parameter
  \<open>ord\<close> of the model, from the keys as stored to the keys as iterated.
\<close>

type_synonym 'v pydict = "(string \<times> 'v) list"

definition dict_set :: "'v pydict \<Rightarrow> string \<Rightarrow> 'v \<Rightarrow> 'v pydict" where
  "dict_set d k v =
     (if k \<in> set (map fst d)
      then map (\<lambda>(k', v'). if k' = k then (k', v) else (k', v')) d
      else d @ [(k, v)])"

definition iteritems :: "(string list \<Rightarrow> string list) \<Rightarrow> 'v pydict \<Rightarrow> (string \<times> 'v) list" where
  "iteritems ord d =
     concat (map (\<lambda>k. case map_of d k of None \<Rightarrow> [] | Some v \<Rightarrow> [(k, v)])
                 (ord (map fst d)))"

section \<open>The persistence sink: \<^verbatim>\<open>connect_to_db\<close> and \<^verbatim>\<open>store_coverage\<close>\<close>

text \<open>
  The database is a transactional store: rows written while autocommit is off are
  pending until \<^verbatim>\<open>commit\<close> appends them to the table, and \<^verbatim>\<open>rollback\<close> or closing the
  connection drops them. What the driver may raise is given by \<open>db_env\<close>: a failure to
  connect, a failure to create the cursor, and a failure of \<^verbatim>\<open>executemany\<close> after a number
  of rows have been written. \<^verbatim>\<open>rollback\<close>, \<^verbatim>\<open>commit\<close> and the two \<^verbatim>\<open>close\<close> calls are taken
  to succeed.
\<close>

datatype sqlval = SNull | SStr string | SInt int | SFloat pyfloat

type_synonym row = "sqlval list"

datatype db_call =
    Connect "string list"
  | Autocommit bool
  | Cursor
  | ExecuteMany "row list"
  | Rollback
  | Commit
  | CursorClose
  | Close

record db_state =
  conn_open :: bool
  autocommit :: bool
  pending :: "row list"
  coverage_table :: "row list"
  calls :: "db_call list"

record db_env =
  connect_error :: "error option"
  cursor_error :: "error option"
  insert_error :: "row list \<Rightarrow> (nat \<times> error) option"

definition connect_to_db :: "db_env \<Rightarrow> (string \<rightharpoonup> string) \<Rightarrow> db_state \<Rightarrow> error + db_state" where
  "connect_to_db env cfg s =
     (case cfg ''coverage_db_host'' of
        None \<Rightarrow> Inl (KeyError ''coverage_db_host'')
      | Some host \<Rightarrow>
     (case cfg ''coverage_db_user'' of
        None \<Rightarrow> Inl (KeyError ''coverage_db_user'')
      | Some user \<Rightarrow>
     (case cfg ''coverage_db_name'' of
        None \<Rightarrow> Inl (KeyError ''coverage_db_name'')
      | Some name \<Rightarrow>
     (case cfg ''coverage_db_password'' of
        None \<Rightarrow> Inl (KeyError ''coverage_db_password'')
      | Some passwd \<Rightarrow>
     (case connect_error env of
        Some e \<Rightarrow> Inl e
      | None \<Rightarrow>
          Inr (s\<lparr>conn_open := True, autocommit := False, pending := [],
                 calls := calls s @ [Connect [host, user, name, passwd],
                                     Autocommit False]\<rparr>))))))"

definition db_executemany :: "db_env \<Rightarrow> row list \<Rightarrow> db_state \<Rightarrow> (error + unit) \<times> db_state" where
  "db_executemany env rows s =
     (let written = (case insert_error env rows of None \<Rightarrow> rows | Some (k, e) \<Rightarrow> take k rows);
          s' = (if autocommit s
                then s\<lparr>coverage_table := coverage_table s @ written\<rparr>
                else s\<lparr>pending := pending s @ written\<rparr>)
      in (case insert_error env rows of None \<Rightarrow> Inr () | Some (k, e) \<Rightarrow> Inl e,
          s'\<lparr>calls := calls s' @ [ExecuteMany rows]\<rparr>))"

definition db_rollback :: "db_state \<Rightarrow> db_state" where
  "db_rollback s = s\<lparr>pending := [], calls := calls s @ [Rollback]\<rparr>"

definition db_commit :: "db_state \<Rightarrow> db_state" where
  "db_commit s = s\<lparr>coverage_table := coverage_table s @ pending s, pending := [],
                   calls := calls s @ [Commit]\<rparr>"

definition db_cursor_close :: "db_state \<Rightarrow> db_state" where
  "db_cursor_close s = s\<lparr>calls := calls s @ [CursorClose]\<rparr>"

definition db_close :: "db_state \<Rightarrow> db_state" where
  "db_close s = s\<lparr>conn_open := False, pending := [], calls := calls s @ [Close]\<rparr>"

text \<open>
  \<^verbatim>\<open>[item for sublist in coverage for item in sublist]\<close>: iterating over an entry that is
  \<^verbatim>\<open>None\<close> raises \<^verbatim>\<open>TypeError\<close>.
\<close>

fun flatten_cov :: "coverage \<Rightarrow> error + row" where
  "flatten_cov [] = Inr []"
| "flatten_cov (None # rest) = Inl TypeError"
| "flatten_cov (Some (n, p) # rest) =
     (case flatten_cov rest of
        Inl e \<Rightarrow> Inl e
      | Inr items \<Rightarrow>
          Inr ((case n of None \<Rightarrow> SNull | Some k \<Rightarrow> SInt k)
               # (case p of None \<Rightarrow> SNull | Some f \<Rightarrow> SFloat f) # items))"

text \<open>The loop that builds \<^verbatim>\<open>rows\<close> from the items of \<^verbatim>\<open>test_coverage\<close>.\<close>

fun build_rows :: "(string \<times> coverage) list \<Rightarrow> string \<Rightarrow> string \<Rightarrow> error + row list" where
  "build_rows [] rev_id suite = Inr []"
| "build_rows ((test, cov) # rest) rev_id suite =
     (case flatten_cov cov of
        Inl e \<Rightarrow> Inl e
      | Inr flattened_cov \<Rightarrow>
          (case build_rows rest rev_id suite of
             Inl e \<Rightarrow> Inl e
           | Inr rows \<Rightarrow> Inr (([SStr rev_id, SStr test, SStr suite] @ flattened_cov) # rows)))"

text \<open>
  The \<^verbatim>\<open>try\<close> statement. When \<^verbatim>\<open>db.cursor()\<close> raises, the handler rolls back and re-raises,
  and \<^verbatim>\<open>cursor.close()\<close> in the \<^verbatim>\<open>finally\<close> clause then fails on the unbound local
  \<^verbatim>\<open>cursor\<close>, which replaces the exception.
\<close>

definition insert_rows :: "db_env \<Rightarrow> row list \<Rightarrow> db_state \<Rightarrow> (error + unit) \<times> db_state" where
  "insert_rows env rows s =
     (case cursor_error env of
        Some e \<Rightarrow> (Inl UnboundLocalError, db_rollback s)
      | None \<Rightarrow>
          (case db_executemany env rows (s\<lparr>calls := calls s @ [Cursor]\<rparr>) of
             (Inl e, s') \<Rightarrow> (Inl e, db_cursor_close (db_rollback s'))
           | (Inr u, s') \<Rightarrow> (Inr (), db_cursor_close (db_commit s'))))"

text \<open>
  \<^verbatim>\<open>with closing(connect_to_db(ctx)) as db\<close>: once the connection exists it is closed on
  every way out of the block.
\<close>

definition store_coverage ::
  "(string list \<Rightarrow> string list) \<Rightarrow> db_env \<Rightarrow> (string \<rightharpoonup> string) \<Rightarrow> coverage pydict
     \<Rightarrow> string \<Rightarrow> string \<Rightarrow> db_state \<Rightarrow> (error + unit) \<times> db_state" where
  "store_coverage ord env cfg test_coverage rev_id suite s =
     (case connect_to_db env cfg s of
        Inl e \<Rightarrow> (Inl e, s)
      | Inr db \<Rightarrow>
          (case build_rows (iteritems ord test_coverage) rev_id suite of
             Inl e \<Rightarrow> (Inl e, db_close db)
           | Inr rows \<Rightarrow>
               (case insert_rows env rows db of (r, db') \<Rightarrow> (r, db_close db'))))"

section \<open>The driver: \<^verbatim>\<open>_analyze\<close>\<close>

subsection \<open>Paths\<close>

text \<open>\<^verbatim>\<open>os.path.join(a, b)\<close> and \<^verbatim>\<open>os.path.basename(p)\<close> of \<^verbatim>\<open>posixpath\<close>.\<close>

definition path_join :: "string \<Rightarrow> string \<Rightarrow> string" where
  "path_join a b =
     (if startswith b ''/'' then b
      else if a = [] \<or> last a = CHR ''/'' then a @ b
      else a @ ''/'' @ b)"

definition basename :: "string \<Rightarrow> string" where
  "basename p = rev (takeWhile (\<lambda>c. c \<noteq> CHR ''/'') (rev p))"

subsection \<open>The world outside\<close>

text \<open>
  The file system as the driver sees it: directory listings, the two tests on paths,
  the documents that loading a YAML file gives, and the text that reading a file
  gives (which the driver never asks for). Creating a process, copying and
  renaming are recorded as actions and taken to succeed; the exit status and the
  standard output of a process are given by \<open>tools\<close>, from the actions so far and the
  argument vector.
\<close>

record filesystem =
  listdir :: "string \<Rightarrow> string list"
  isdir :: "string \<Rightarrow> bool"
  path_exists :: "string \<Rightarrow> bool"
  yaml_docs :: "string \<Rightarrow> (string \<rightharpoonup> string) list"
  file_text :: "string \<Rightarrow> string"

datatype action = Run "string list" | Copy string string | Rename string string

record tools =
  exit_status :: "action list \<Rightarrow> string list \<Rightarrow> int"
  stdout :: "action list \<Rightarrow> string list \<Rightarrow> string"

record args =
  test_dir :: string
  lcov_output :: string
  html_output :: "string option"
  cov_tools_dir :: string
  skip_init :: bool
  teuthology_config :: "string \<rightharpoonup> string"

record world =
  actions :: "action list"
  db :: db_state

subsection \<open>Scanning the test directory (lines 131 to 151)\<close>

definition tests_of :: "filesystem \<Rightarrow> args \<Rightarrow> string list" where
  "tests_of fs a =
     filter (\<lambda>f. \<not> startswith f ''.''
                \<and> isdir fs (path_join (test_dir a) f)
                \<and> path_exists fs (path_join (path_join (test_dir a) f) ''summary.yaml'')
                \<and> path_exists fs (path_join (path_join (test_dir a) f) ''ceph-sha1''))
            (sort (listdir fs (test_dir a)))"

text \<open>\<^verbatim>\<open>summary.update(new)\<close> for each document: a later document overrides an earlier one.\<close>

definition merged_summary :: "filesystem \<Rightarrow> args \<Rightarrow> string \<Rightarrow> (string \<rightharpoonup> string)" where
  "merged_summary fs a test =
     foldl (++) Map.empty
           (yaml_docs fs (path_join (path_join (test_dir a) test) ''summary.yaml''))"

fun load_summaries ::
  "filesystem \<Rightarrow> args \<Rightarrow> string list \<Rightarrow> (string \<rightharpoonup> string) pydict
     \<Rightarrow> error + (string \<rightharpoonup> string) pydict" where
  "load_summaries fs a [] test_summaries = Inr test_summaries"
| "load_summaries fs a (test # rest) test_summaries =
     (case merged_summary fs a test ''flavor'' of
        None \<Rightarrow> Inl (KeyError ''flavor'')
      | Some flavor \<Rightarrow>
          if flavor \<noteq> ''gcov'' then load_summaries fs a rest test_summaries
          else load_summaries fs a rest
                 (dict_set test_summaries test (merged_summary fs a test)))"

definition scan_tests ::
  "filesystem \<Rightarrow> args \<Rightarrow> error + (string list \<times> (string \<rightharpoonup> string) pydict)" where
  "scan_tests fs a =
     (case load_summaries fs a (tests_of fs a) [] of
        Inl e \<Rightarrow> Inl e
      | Inr test_summaries \<Rightarrow>
          if length test_summaries > 0 then Inr (tests_of fs a, test_summaries)
          else Inl AssertionError)"

subsection \<open>Initialisation (lines 155 to 172)\<close>

definition init_coverage ::
  "tools \<Rightarrow> args \<Rightarrow> string list \<Rightarrow> string \<Rightarrow> action list \<Rightarrow> (error + unit) \<times> action list" where
  "init_coverage tls a tests suite acts =
     (if skip_init a then (Inr (), acts)
      else
        (case tests of
           [] \<Rightarrow> (Inl IndexError, acts)
         | t0 # others \<Rightarrow>
             (case teuthology_config a ''ceph_build_output_dir'' of
                None \<Rightarrow> (Inl (KeyError ''ceph_build_output_dir''), acts)
              | Some build_dir \<Rightarrow>
                  (let argv = [path_join (cov_tools_dir a) ''cov-init.sh'',
                               path_join (test_dir a) t0,
                               lcov_output a,
                               path_join build_dir (suite @ ''.tgz'')];
                       rc = exit_status tls acts argv
                   in if rc \<noteq> 0 then (Inl (CalledProcessError rc), acts @ [Run argv])
                      else (Inr (),
                            acts @ [Run argv,
                                    Copy (path_join (lcov_output a) ''base.lcov'')
                                         (path_join (lcov_output a) ''total.lcov'')])))))"

subsection \<open>The loop over the eligible tests (lines 174 to 207)\<close>

text \<open>
  The loop variables that are read after the loop: the dataset, and \<^verbatim>\<open>output\<close> and
  \<^verbatim>\<open>summary\<close>, which are unbound until the body has run once.
\<close>

type_synonym loop_vars =
  "coverage pydict \<times> string option \<times> (string \<rightharpoonup> string) option"

fun analyze_tests ::
  "tools \<Rightarrow> args \<Rightarrow> (string \<times> (string \<rightharpoonup> string)) list \<Rightarrow> loop_vars \<Rightarrow> action list
     \<Rightarrow> (error + loop_vars) \<times> action list" where
  "analyze_tests tls a [] vars acts = (Inr vars, acts)"
| "analyze_tests tls a ((test, summary) # rest) (test_coverage, out, summ) acts =
     (let lcov_file = test @ ''.lcov'';
          argv1 = [path_join (cov_tools_dir a) ''cov-analyze.sh'',
                   ''-t'', path_join (test_dir a) test,
                   ''-d'', lcov_output a,
                   ''-o'', test];
          output1 = stdout tls acts argv1;
          acts1 = acts @ [Run argv1];
          desc = (case summary ''description'' of None \<Rightarrow> test | Some d \<Rightarrow> d)
      in (case read_coverage output1 of
            Inl e \<Rightarrow> (Inl e, acts1)
          | Inr cov \<Rightarrow>
              (let argv2 = [''lcov'',
                            ''-a'', path_join (lcov_output a) lcov_file,
                            ''-a'', path_join (lcov_output a) ''total.lcov'',
                            ''-o'', path_join (lcov_output a) ''total_tmp.lcov''];
                   output2 = stdout tls acts1 argv2;
                   acts2 = acts1 @ [Run argv2,
                                    Rename (path_join (lcov_output a) ''total_tmp.lcov'')
                                           (path_join (lcov_output a) ''total.lcov'')]
               in analyze_tests tls a rest
                    (dict_set test_coverage desc cov, Some output2, Some summary) acts2)))"

subsection \<open>The total, the HTML report and the call of the sink (lines 209 to 224)\<close>

definition gen_html :: "tools \<Rightarrow> args \<Rightarrow> string \<Rightarrow> action list \<Rightarrow> (error + unit) \<times> action list" where
  "gen_html tls a suite acts =
     (case html_output a of
        None \<Rightarrow> (Inr (), acts)
      | Some html \<Rightarrow>
          if html = [] then (Inr (), acts)
          else
            (let argv = [''genhtml'', ''-s'',
                         ''-o'', path_join html ''total'',
                         ''-t'', ''Total for '' @ suite,
                         ''--'',
                         path_join (lcov_output a) ''total.lcov''];
                 rc = exit_status tls acts argv
             in if rc \<noteq> 0 then (Inl (CalledProcessError rc), acts @ [Run argv])
                else (Inr (), acts @ [Run argv])))"

definition total_label :: "string \<Rightarrow> string" where
  "total_label suite = ''total for '' @ suite"

definition finish ::
  "(string list \<Rightarrow> string list) \<Rightarrow> tools \<Rightarrow> db_env \<Rightarrow> args \<Rightarrow> string \<Rightarrow> loop_vars
     \<Rightarrow> action list \<Rightarrow> db_state \<Rightarrow> (error + unit) \<times> world" where
  "finish ord tls env a suite vars acts s =
     (case vars of (test_coverage, out, summ) \<Rightarrow>
        (case out of
           None \<Rightarrow> (Inl UnboundLocalError, \<lparr>actions = acts, db = s\<rparr>)
         | Some output \<Rightarrow>
        (case read_coverage output of
           Inl e \<Rightarrow> (Inl e, \<lparr>actions = acts, db = s\<rparr>)
         | Inr cov \<Rightarrow>
        (case gen_html tls a suite acts of
           (Inl e, acts') \<Rightarrow> (Inl e, \<lparr>actions = acts', db = s\<rparr>)
         | (Inr u, acts') \<Rightarrow>
        (case summ of
           None \<Rightarrow> (Inl UnboundLocalError, \<lparr>actions = acts', db = s\<rparr>)
         | Some summary \<Rightarrow>
        (case summary ''ceph-sha1'' of
           None \<Rightarrow> (Inl (KeyError ''ceph-sha1''), \<lparr>actions = acts', db = s\<rparr>)
         | Some rev_id \<Rightarrow>
        (case store_coverage ord env (teuthology_config a)
                (dict_set test_coverage (total_label suite) cov) rev_id suite s of
           (r, s') \<Rightarrow> (r, \<lparr>actions = acts', db = s'\<rparr>))))))))"

text \<open>The whole of \<^verbatim>\<open>_analyze(args)\<close>.\<close>

definition analyze_run ::
  "(string list \<Rightarrow> string list) \<Rightarrow> tools \<Rightarrow> db_env \<Rightarrow> filesystem \<Rightarrow> args \<Rightarrow> world
     \<Rightarrow> (error + unit) \<times> world" where
  "analyze_run ord tls env fs a w =
     (case scan_tests fs a of
        Inl e \<Rightarrow> (Inl e, w)
      | Inr (tests, test_summaries) \<Rightarrow>
          (let suite = basename (test_dir a) in
           (case init_coverage tls a tests suite (actions w) of
              (Inl e, acts) \<Rightarrow> (Inl e, w\<lparr>actions := acts\<rparr>)
            | (Inr u, acts) \<Rightarrow>
                (case analyze_tests tls a (iteritems ord test_summaries) ([], None, None) acts of
                   (Inl e, acts') \<Rightarrow> (Inl e, w\<lparr>actions := acts'\<rparr>)
                 | (Inr vars, acts') \<Rightarrow> finish ord tls env a suite vars acts' (db w)))))"

section \<open>Vocabulary of the properties\<close>

subsection \<open>The parser\<close>

text \<open>Line \<open>l\<close> starts with the prefix of metric \<open>i\<close> (0 lines, 1 functions, 2 branches).\<close>

definition metric_line :: "nat \<Rightarrow> string \<Rightarrow> bool" where
  "metric_line i l = startswith l (prefixes ! i)"

text \<open>
  Slot value \<open>s\<close> of metric \<open>i\<close> comes from the top-most line of \<open>ls\<close> that starts with
  the metric's prefix: \<^verbatim>\<open>None\<close> when there is no such line, the parsed pair otherwise.
\<close>

definition slot_from :: "nat \<Rightarrow> string list \<Rightarrow> cov_pair option \<Rightarrow> bool" where
  "slot_from i ls s =
     (case List.find (metric_line i) ls of
        None \<Rightarrow> s = None
      | Some l \<Rightarrow>
          (case parse_metric (prefixes ! i) l of
             Inl e \<Rightarrow> False
           | Inr v \<Rightarrow> s = Some v))"

subsection \<open>The driver\<close>

text \<open>An iteration order is admissible when it permutes the keys it is given.\<close>

definition dict_order_ok :: "(string list \<Rightarrow> string list) \<Rightarrow> bool" where
  "dict_order_ok ord = (\<forall>ks. distinct ks \<longrightarrow> distinct (ord ks) \<and> set (ord ks) = set ks)"

text \<open>
  A candidate is a visible subdirectory that holds both files; it is eligible when the
  flavor of its merged summary is \<^verbatim>\<open>gcov\<close>.
\<close>

definition is_candidate :: "filesystem \<Rightarrow> args \<Rightarrow> string \<Rightarrow> bool" where
  "is_candidate fs a f =
     (\<not> startswith f ''.''
      \<and> isdir fs (path_join (test_dir a) f)
      \<and> path_exists fs (path_join (path_join (test_dir a) f) ''summary.yaml'')
      \<and> path_exists fs (path_join (path_join (test_dir a) f) ''ceph-sha1''))"

definition is_eligible :: "filesystem \<Rightarrow> args \<Rightarrow> string \<Rightarrow> bool" where
  "is_eligible fs a f =
     (is_candidate fs a f \<and> merged_summary fs a f ''flavor'' = Some ''gcov'')"

text \<open>The eligible tests in lexical order.\<close>

definition eligible_tests :: "filesystem \<Rightarrow> args \<Rightarrow> string list" where
  "eligible_tests fs a = filter (is_eligible fs a) (sort (listdir fs (test_dir a)))"

text \<open>The label of a test in the dataset: its description, or its name without one.\<close>

definition item_label :: "string \<times> (string \<rightharpoonup> string) \<Rightarrow> string" where
  "item_label item = (case snd item ''description'' of None \<Rightarrow> fst item | Some d \<Rightarrow> d)"

definition label_of :: "filesystem \<Rightarrow> args \<Rightarrow> string \<Rightarrow> string" where
  "label_of fs a f = item_label (f, merged_summary fs a f)"

text \<open>The keys of a dictionary after storing under the keys \<open>xs\<close> one after the other.\<close>

definition add_key :: "string list \<Rightarrow> string \<Rightarrow> string list" where
  "add_key ks k = (if k \<in> set ks then ks else ks @ [k])"

text \<open>The label column and the revision column of a row.\<close>

definition row_label :: "row \<Rightarrow> sqlval" where
  "row_label r = r ! 1"

definition row_rev :: "row \<Rightarrow> sqlval" where
  "row_rev r = r ! 0"

text \<open>An action is a call of the initialiser when it runs \<^verbatim>\<open>cov-init.sh\<close> of the tools directory.\<close>

fun is_init_call :: "args \<Rightarrow> action \<Rightarrow> bool" where
  "is_init_call a (Run argv) = (take 1 argv = [path_join (cov_tools_dir a) ''cov-init.sh''])"
| "is_init_call a (Copy src dst) = False"
| "is_init_call a (Rename src dst) = False"

text \<open>The argument vector of the initialiser for a given template test.\<close>

definition init_argv :: "args \<Rightarrow> string \<Rightarrow> string \<Rightarrow> string list" where
  "init_argv a template build_dir =
     [path_join (cov_tools_dir a) ''cov-init.sh'',
      path_join (test_dir a) template,
      lcov_output a,
      path_join build_dir (basename (test_dir a) @ ''.tgz'')]"

section \<open>Example inputs\<close>

definition LF :: char where
  "LF = CHR 0x0A"

text \<open>The three summary lines of a report, as the analysis tool prints them.\<close>

definition lines_line :: string where
  "lines_line = ''  lines......: 85.3% (120 of 140)''"

definition functions_line :: string where
  "functions_line = ''  functions..: 90.0% (9 of 10)''"

definition branches_line :: string where
  "branches_line = ''  branches...: 50.0% (4 of 8)''"

definition summary_report :: string where
  "summary_report = lines_line @ [LF] @ functions_line @ [LF] @ branches_line @ [LF]"

text \<open>A report in which the lines metric is printed twice, between the other two.\<close>

definition dup_report :: string where
  "dup_report = ''  functions..: 90.0% (9 of 10)'' @ [LF]
              @ ''  lines......: 10.0% (1 of 10)'' @ [LF]
              @ ''  lines......: 20.0% (2 of 10)'' @ [LF]
              @ ''  branches...: 50.0% (4 of 8)'' @ [LF]"

text \<open>A report without a functions line and without branch data.\<close>

definition partial_report :: string where
  "partial_report = ''  lines......: 85.3% (120 of 140)'' @ [LF]
                  @ ''  branches...: no data found'' @ [LF]"

text \<open>A dataset of two entries, a database that fails after the first row, and one that does not.\<close>

definition ex_dataset :: "coverage pydict" where
  "ex_dataset =
     [(''test-a'', [Some (Some 120, Some (Rounded (853 / 10))), Some (Some 9, Some (Rounded 90)),
                    Some (None, None)]),
      (''total for suite'', [Some (Some 4, Some (Rounded 50)), Some (None, None),
                             Some (None, None)])]"

definition ex_rows :: "row list" where
  "ex_rows =
     [[SStr ''abc123'', SStr ''test-a'', SStr ''suite'',
       SInt 120, SFloat (Rounded (853 / 10)), SInt 9, SFloat (Rounded 90), SNull, SNull],
      [SStr ''abc123'', SStr ''total for suite'', SStr ''suite'',
       SInt 4, SFloat (Rounded 50), SNull, SNull, SNull, SNull]]"

definition ex_config :: "string \<rightharpoonup> string" where
  "ex_config = [''ceph_build_output_dir'' \<mapsto> ''/build'',
                ''coverage_db_host'' \<mapsto> ''dbhost'', ''coverage_db_user'' \<mapsto> ''cov'',
                ''coverage_db_name'' \<mapsto> ''coverage'', ''coverage_db_password'' \<mapsto> ''secret'']"

definition old_row :: row where
  "old_row = [SStr ''000000'', SStr ''old'', SStr ''suite'',
              SInt 1, SFloat (Rounded 1), SNull, SNull, SNull, SNull]"

definition ex_db :: db_state where
  "ex_db = \<lparr>conn_open = False, autocommit = True, pending = [],
            coverage_table = [old_row], calls = []\<rparr>"

definition failing_env :: db_env where
  "failing_env = \<lparr>connect_error = None, cursor_error = None,
                  insert_error = (\<lambda>rows. Some (1, ExternalError ''insert failed''))\<rparr>"

definition working_env :: db_env where
  "working_env = \<lparr>connect_error = None, cursor_error = None,
                  insert_error = (\<lambda>rows. None)\<rparr>"

text \<open>
  A results directory \<^verbatim>\<open>/r/suite\<close>: \<^verbatim>\<open>a\<close> ran without coverage, \<^verbatim>\<open>b\<close> and \<^verbatim>\<open>c\<close> with it,
  \<^verbatim>\<open>plain\<close> is a file, \<^verbatim>\<open>nomark\<close> has no \<^verbatim>\<open>ceph-sha1\<close>. Every \<^verbatim>\<open>ceph-sha1\<close> file holds
  \<^verbatim>\<open>ffff\<close>, which is the revision of no summary.
\<close>

definition ex_fs :: filesystem where
  "ex_fs =
     \<lparr>listdir = (\<lambda>p. if p = ''/r/suite'' then [''c'', ''.hid'', ''b'', ''nomark'', ''a'', ''plain'']
                      else []),
      isdir = (\<lambda>p. p \<noteq> ''/r/suite/plain''),
      path_exists = (\<lambda>p. p \<noteq> ''/r/suite/nomark/ceph-sha1''),
      yaml_docs = (\<lambda>p.
        if p = ''/r/suite/a/summary.yaml''
          then [[''flavor'' \<mapsto> ''basic'', ''ceph-sha1'' \<mapsto> ''a1a1'']]
        else if p = ''/r/suite/b/summary.yaml''
          then [[''flavor'' \<mapsto> ''gcov'', ''description'' \<mapsto> ''test-b''],
                [''ceph-sha1'' \<mapsto> ''b1b1'']]
        else if p = ''/r/suite/c/summary.yaml''
          then [[''flavor'' \<mapsto> ''gcov'', ''ceph-sha1'' \<mapsto> ''c1c1'']]
        else []),
      file_text = (\<lambda>p. ''ffff'')\<rparr>"



definition ex_tools :: tools where
  "ex_tools = \<lparr>exit_status = (\<lambda>acts argv. 0),
               stdout = (\<lambda>acts argv. if take 1 argv = [''lcov''] then dup_report
                                      else summary_report)\<rparr>"

definition ex_args :: args where
  "ex_args = \<lparr>test_dir = ''/r/suite'', lcov_output = ''/out'', html_output = None,
              cov_tools_dir = ''../../coverage'', skip_init = False,
              teuthology_config = ex_config\<rparr>"

definition ex_world :: world where
  "ex_world = \<lparr>actions = [], db = ex_db\<rparr>"

text \<open>The rows of the three summary lines and of \<open>dup_report\<close>, after the three leading columns.\<close>

definition summary_cols :: row where
  "summary_cols = [SInt 120, SFloat (Rounded (853 / 10)), SInt 9, SFloat (Rounded 90),
                   SInt 4, SFloat (Rounded 50)]"

definition dup_cols :: row where
  "dup_cols = [SInt 1, SFloat (Rounded 10), SInt 9, SFloat (Rounded 90),
               SInt 4, SFloat (Rounded 50)]"

definition ex_actions :: "action list" where
  "ex_actions =
     [Run [''../../coverage/cov-init.sh'', ''/r/suite/a'', ''/out'', ''/build/suite.tgz''],
      Copy ''/out/base.lcov'' ''/out/total.lcov'',
      Run [''../../coverage/cov-analyze.sh'', ''-t'', ''/r/suite/b'', ''-d'', ''/out'',
           ''-o'', ''b''],
      Run [''lcov'', ''-a'', ''/out/b.lcov'', ''-a'', ''/out/total.lcov'',
           ''-o'', ''/out/total_tmp.lcov''],
      Rename ''/out/total_tmp.lcov'' ''/out/total.lcov'',
      Run [''../../coverage/cov-analyze.sh'', ''-t'', ''/r/suite/c'', ''-d'', ''/out'',
           ''-o'', ''c''],
      Run [''lcov'', ''-a'', ''/out/c.lcov'', ''-a'', ''/out/total.lcov'',
           ''-o'', ''/out/total_tmp.lcov''],
      Rename ''/out/total_tmp.lcov'' ''/out/total.lcov'']"

text \<open>The rows and the world at the end of the run on \<open>ex_fs\<close>.\<close>

definition ex_run_rows :: "row list" where
  "ex_run_rows =
     [[SStr ''c1c1'', SStr ''test-b'', SStr ''suite''] @ summary_cols,
      [SStr ''c1c1'', SStr ''c'', SStr ''suite''] @ summary_cols,
      [SStr ''c1c1'', SStr ''total for suite'', SStr ''suite''] @ dup_cols]"

definition ex_final_world :: world where
  "ex_final_world =
     \<lparr>actions = ex_actions,
      db = \<lparr>conn_open = False, autocommit = False, pending = [],
            coverage_table = old_row # ex_run_rows,
            calls = [Connect [''dbhost'', ''cov'', ''coverage'', ''secret''], Autocommit False,
                     Cursor, ExecuteMany ex_run_rows, Commit, CursorClose, Close]\<rparr>\<rparr>"

section \<open>Properties of the parser\<close>

subsection \<open>One line\<close>

lemma metric_line_unique:
  "metric_line i l \<Longrightarrow> metric_line j l \<Longrightarrow> i < 3 \<Longrightarrow> j < 3 \<Longrightarrow> i = j"
proof -
  have three: "\<And>k::nat. k < 3 \<Longrightarrow> k = 0 \<or> k = 1 \<or> k = 2" by arith
  assume a: "metric_line i l" "metric_line j l" and b: "i < 3" "j < 3"
  from three[OF b(1)] three[OF b(2)] a show ?thesis
    by (auto simp: metric_line_def prefixes_def startswith_def)
qed

lemma match_prefixes_miss:
  assumes "\<forall>i<3. \<not> metric_line i l"
  shows "match_prefixes l 0 prefixes cov = Inr cov"
proof -
  have "\<not> metric_line 0 l" "\<not> metric_line 1 l" "\<not> metric_line 2 l"
    using assms by simp_all
  then show ?thesis
    by (simp add: metric_line_def prefixes_def)
qed

lemma match_prefixes_hit:
  assumes "i < 3" "metric_line i l" "length cov = 3"
  shows "match_prefixes l 0 prefixes cov =
           (case parse_metric (prefixes ! i) l of
              Inl e \<Rightarrow> Inl e
            | Inr p \<Rightarrow> Inr (cov[i := Some p]))"
proof -
  have "i = 0 \<or> i = 1 \<or> i = 2" using assms(1) by arith
  moreover have "i \<noteq> 0 \<Longrightarrow> \<not> metric_line 0 l"
    using metric_line_unique[OF assms(2), of 0] assms(1) by auto
  moreover have "i \<noteq> 1 \<Longrightarrow> \<not> metric_line 1 l"
    using metric_line_unique[OF assms(2), of 1] assms(1) by auto
  ultimately show ?thesis using assms(2,3)
    by (auto simp: metric_line_def prefixes_def numeral_2_eq_2 split: sum.splits)
qed

lemma parse_metric_paired:
  "parse_metric pfx l = Inr (n, p) \<Longrightarrow> (n = None) = (p = None)"
  by (auto simp: parse_metric_def split: if_splits sum.splits)

lemma slot_from_Cons:
  "slot_from i (l # P) s =
     (if metric_line i l
      then (case parse_metric (prefixes ! i) l of Inl e \<Rightarrow> False | Inr v \<Rightarrow> s = Some v)
      else slot_from i P s)"
  by (simp add: slot_from_def)

lemma slot_from_None:
  "slot_from i P None \<Longrightarrow> l \<in> set P \<Longrightarrow> \<not> metric_line i l"
  by (auto simp: slot_from_def find_None_iff split: option.splits sum.splits)

lemma slot_from_Some:
  "slot_from i P (Some v) \<Longrightarrow>
     \<exists>l\<in>set P. metric_line i l \<and> parse_metric (prefixes ! i) l = Inr v"
  by (auto simp: slot_from_def find_Some_iff split: option.splits sum.splits)

text \<open>
  One pass of the inner loop keeps the link between the slots and the lines seen: after
  line \<open>l\<close>, scanned above the lines \<open>P\<close>, every slot comes from the top-most line of
  \<open>l # P\<close> with its prefix.
\<close>

lemma match_prefixes_step:
  assumes len: "length cov = 3"
    and inv: "\<forall>i<3. slot_from i P (cov ! i)"
    and m: "match_prefixes l 0 prefixes cov = Inr c"
  shows "length c = 3 \<and> (\<forall>i<3. slot_from i (l # P) (c ! i))"
proof (cases "\<exists>i<3. metric_line i l")
  case False
  then have "c = cov" using m match_prefixes_miss[of l cov] by simp
  with False len inv show ?thesis by (simp add: slot_from_Cons)
next
  case True
  then obtain i where i: "i < 3" "metric_line i l" by blast
  from m match_prefixes_hit[OF i len]
  obtain p where p: "parse_metric (prefixes ! i) l = Inr p" "c = cov[i := Some p]"
    by (auto split: sum.splits)
  have "slot_from j (l # P) (c ! j)" if j: "j < 3" for j
  proof (cases "j = i")
    case True
    with i p len show ?thesis by (simp add: slot_from_Cons)
  next
    case False
    then have "\<not> metric_line j l" using metric_line_unique[OF i(2) _ i(1) j] by blast
    with False p inv j show ?thesis by (simp add: slot_from_Cons)
  qed
  with p len show ?thesis by simp
qed

subsection \<open>The scan\<close>

lemma None_in_cov:
  "length (cov :: coverage) = 3 \<Longrightarrow> None \<in> set cov \<longleftrightarrow> (\<exists>i<3. cov ! i = None)"
  by (auto simp: in_set_conv_nth)

text \<open>
  The invariant of the outer loop. \<open>P\<close> are the lines already scanned, in the order of
  the text; \<open>rs\<close> are the lines still to scan, bottom-most first. The scan visits \<open>k\<close>
  of them and stops either at the end or at the first line that completes the three
  slots.
\<close>

lemma scan_lines_inv:
  assumes "scan_lines rs cov = Inr cov'"
    and "length cov = 3"
    and "\<forall>i<3. slot_from i P (cov ! i)"
    and "None \<in> set cov"
  shows "\<exists>k\<le>length rs.
           length cov' = 3
         \<and> (\<forall>i<3. slot_from i (rev (take k rs) @ P) (cov' ! i))
         \<and> (k = length rs \<or> (\<forall>i<3. \<exists>l\<in>set (rev (take k rs) @ P). metric_line i l))
         \<and> (\<exists>i<3. \<forall>l\<in>set (tl (rev (take k rs) @ P)). \<not> metric_line i l)"
  using assms
proof (induction rs arbitrary: cov P)
  case Nil
  from Nil.prems(2,4) obtain i where i: "i < 3" "cov ! i = None"
    by (auto simp: None_in_cov)
  with Nil.prems(3) have "slot_from i P None" by metis
  then have "\<forall>l\<in>set (tl P). \<not> metric_line i l"
    using slot_from_None list.set_sel(2) by (metis tl_Nil)
  with Nil.prems i(1) show ?case by auto
next
  case (Cons l rs)
  from Cons.prems(1) obtain c where c: "match_prefixes l 0 prefixes cov = Inr c"
    by (auto split: sum.splits)
  from match_prefixes_step[OF Cons.prems(2,3) c]
  have lenc: "length c = 3" and invc: "\<forall>i<3. slot_from i (l # P) (c ! i)" by simp_all
  from Cons.prems(2,4) obtain i0 where i0: "i0 < 3" "cov ! i0 = None"
    by (auto simp: None_in_cov)
  with Cons.prems(3) have "slot_from i0 P None" by metis
  then have missing: "\<forall>x\<in>set P. \<not> metric_line i0 x"
    using slot_from_None by blast
  show ?case
  proof (cases "None \<in> set c")
    case False
    with Cons.prems(1) c have eq: "cov' = c" by simp
    have "\<exists>x\<in>set (l # P). metric_line i x" if "i < 3" for i
    proof -
      from False lenc that obtain v where "c ! i = Some v"
        by (metis None_in_cov not_None_eq)
      with invc that have "slot_from i (l # P) (Some v)" by metis
      from slot_from_Some[OF this] show ?thesis by blast
    qed
    with eq lenc invc missing i0(1) show ?thesis
      by (intro exI[of _ 1]) auto
  next
    case True
    with Cons.prems(1) c have "scan_lines rs c = Inr cov'" by simp
    from Cons.IH[OF this lenc invc True]
    obtain k where k: "k \<le> length rs" "length cov' = 3"
      "\<forall>i<3. slot_from i (rev (take k rs) @ l # P) (cov' ! i)"
      "k = length rs \<or> (\<forall>i<3. \<exists>x\<in>set (rev (take k rs) @ l # P). metric_line i x)"
      "\<exists>i<3. \<forall>x\<in>set (tl (rev (take k rs) @ l # P)). \<not> metric_line i x"
      by blast
    then show ?thesis
      by (intro exI[of _ "Suc k"]) simp
  qed
qed

lemma read_coverage_inv:
  assumes "read_coverage out = Inr cov"
  shows "\<exists>top scanned. splitlines out = top @ scanned
           \<and> length cov = 3
           \<and> (\<forall>i<3. slot_from i scanned (cov ! i))
           \<and> (top = [] \<or> (\<forall>i<3. \<exists>l\<in>set scanned. metric_line i l))
           \<and> (\<exists>i<3. \<forall>l\<in>set (tl scanned). \<not> metric_line i l)"
proof -
  let ?ls = "splitlines out"
  have init: "\<forall>i<3. slot_from i [] ([None, None, None] ! i)"
    by (simp add: slot_from_def nth_Cons split: nat.splits)
  from assms have "scan_lines (rev ?ls) [None, None, None] = Inr cov"
    by (simp add: read_coverage_def)
  from scan_lines_inv[OF this _ init]
  obtain k where k: "k \<le> length ?ls" "length cov = 3"
    "\<forall>i<3. slot_from i (rev (take k (rev ?ls))) (cov ! i)"
    "k = length ?ls \<or> (\<forall>i<3. \<exists>l\<in>set (rev (take k (rev ?ls))). metric_line i l)"
    "\<exists>i<3. \<forall>l\<in>set (tl (rev (take k (rev ?ls)))). \<not> metric_line i l"
    by auto
  have S: "rev (take k (rev ?ls)) = drop (length ?ls - k) ?ls"
    by (simp add: rev_take)
  have "?ls = take (length ?ls - k) ?ls @ drop (length ?ls - k) ?ls" by simp
  moreover have "k = length ?ls \<Longrightarrow> take (length ?ls - k) ?ls = []" by simp
  ultimately show ?thesis using k(2-5) unfolding S by blast
qed

lemma splitlines_from_single:
  "CHR 0x0A \<notin> set s \<Longrightarrow> CHR 0x0D \<notin> set s \<Longrightarrow> cur @ s \<noteq> [] \<Longrightarrow>
     splitlines_from cur s = [cur @ s]"
  by (induction s arbitrary: cur) auto

lemma splitlines_single:
  "CHR 0x0A \<notin> set s \<Longrightarrow> CHR 0x0D \<notin> set s \<Longrightarrow> s \<noteq> [] \<Longrightarrow> splitlines s = [s]"
  using splitlines_from_single[of s "[]"] by (simp add: splitlines_def)

subsection \<open>Evaluated reports\<close>

lemma dup_report_lines:
  "splitlines dup_report =
     [''  functions..: 90.0% (9 of 10)'', ''  lines......: 10.0% (1 of 10)'',
      ''  lines......: 20.0% (2 of 10)'', ''  branches...: 50.0% (4 of 8)'']"
  unfolding dup_report_def LF_def by code_simp

lemma dup_report_result:
  "read_coverage dup_report =
     Inr [Some (Some 1, Some (Rounded 10)), Some (Some 9, Some (Rounded 90)),
          Some (Some 4, Some (Rounded 50))]"
  unfolding dup_report_def LF_def by code_simp

lemma partial_report_result:
  "read_coverage partial_report =
     Inr [Some (Some 120, Some (Rounded (853 / 10))), None, Some (None, None)]"
  unfolding partial_report_def LF_def by code_simp

subsection \<open>The claims about the parser\<close>

text \<open>
  C1 (as amended). The parser scans the lines bottom-up and stops right after the line
  at which all three metrics are assigned; every scanned line that starts with a metric
  prefix assigns that metric's slot, replacing an earlier assignment. So the text splits
  into an unscanned top part and a scanned bottom part, the scanned part is the whole
  text or the shortest tail containing all three prefixes, and each metric's value is
  read from the top-most line of the scanned part that starts with its prefix (it stays
  \<^verbatim>\<open>None\<close> when there is none). The bottom-most occurrence of a prefix wins only when no
  other line with that prefix is scanned after it.
\<close>

theorem read_coverage_topmost_scanned:
  assumes "read_coverage out = Inr cov"
  shows "\<exists>top scanned. splitlines out = top @ scanned
           \<and> (top = [] \<or> (\<forall>i<3. \<exists>l\<in>set scanned. metric_line i l))
           \<and> (\<exists>i<3. \<forall>l\<in>set (tl scanned). \<not> metric_line i l)
           \<and> (\<forall>i<3. slot_from i scanned (cov ! i))"
  using read_coverage_inv[OF assms] by blast

text \<open>The theorem at \<open>dup_report\<close>, where the scan takes in all four lines.\<close>

theorem read_coverage_topmost_scanned_witness:
  "read_coverage dup_report =
     Inr [Some (Some 1, Some (Rounded 10)), Some (Some 9, Some (Rounded 90)),
          Some (Some 4, Some (Rounded 50))]
   \<and> (\<exists>top scanned. splitlines dup_report = top @ scanned
           \<and> (top = [] \<or> (\<forall>i<3. \<exists>l\<in>set scanned. metric_line i l))
           \<and> (\<exists>i<3. \<forall>l\<in>set (tl scanned). \<not> metric_line i l)
           \<and> (\<forall>i<3. slot_from i scanned
                  ([Some (Some 1, Some (Rounded 10)), Some (Some 9, Some (Rounded 90)),
                    Some (Some 4, Some (Rounded 50))] ! i)))"
  using read_coverage_topmost_scanned[OF dup_report_result] dup_report_result
  by blast

text \<open>
  C1 as stated fails: in \<open>dup_report\<close> the bottom-most line with the lines prefix reads
  20.0% (2 of 10), and the parser returns the pair of the line above it, 10.0% (1 of 10).
\<close>

theorem read_coverage_bottom_most_counterexample:
  "last (filter (metric_line 0) (splitlines dup_report)) = ''  lines......: 20.0% (2 of 10)''
   \<and> parse_metric (prefixes ! 0) ''  lines......: 20.0% (2 of 10)''
       = Inr (Some 2, Some (Rounded 20))
   \<and> read_coverage dup_report =
       Inr [Some (Some 1, Some (Rounded 10)), Some (Some 9, Some (Rounded 90)),
            Some (Some 4, Some (Rounded 50))]"
proof -
  have "last (filter (metric_line 0) (splitlines dup_report)) = ''  lines......: 20.0% (2 of 10)''"
    unfolding dup_report_lines by code_simp
  moreover have "parse_metric (prefixes ! 0) ''  lines......: 20.0% (2 of 10)''
       = Inr (Some 2, Some (Rounded 20))"
    by code_simp
  ultimately show ?thesis using dup_report_result by blast
qed

text \<open>
  C2 (as amended). Every list returned by the parser has exactly three entries, in the
  order lines, functions, branches: entry \<open>i\<close> is read from a line that starts with
  prefix \<open>i\<close>. An assigned entry is a pair whose two fields are both present or both
  absent. An entry whose metric has no line in the input stays the bare \<^verbatim>\<open>None\<close> the
  list was initialised with, which is not a pair.
\<close>

theorem read_coverage_entries:
  assumes "read_coverage out = Inr cov"
  shows "length cov = 3
       \<and> (\<forall>i<3. case cov ! i of
                   None \<Rightarrow> (\<forall>l\<in>set (splitlines out). \<not> metric_line i l)
                 | Some (n, p) \<Rightarrow>
                     (n = None) = (p = None)
                   \<and> (\<exists>l\<in>set (splitlines out).
                         metric_line i l \<and> parse_metric (prefixes ! i) l = Inr (n, p)))"
proof -
  from read_coverage_inv[OF assms] obtain top scanned where
    sp: "splitlines out = top @ scanned" and len: "length cov = 3"
    and inv: "\<forall>i<3. slot_from i scanned (cov ! i)"
    and full: "top = [] \<or> (\<forall>i<3. \<exists>l\<in>set scanned. metric_line i l)"
    by blast
  have "case cov ! i of
          None \<Rightarrow> (\<forall>l\<in>set (splitlines out). \<not> metric_line i l)
        | Some (n, p) \<Rightarrow>
            (n = None) = (p = None)
          \<and> (\<exists>l\<in>set (splitlines out).
                metric_line i l \<and> parse_metric (prefixes ! i) l = Inr (n, p))"
    if i: "i < 3" for i
  proof (cases "cov ! i")
    case None
    with inv i have s: "slot_from i scanned None" by metis
    then have "\<not> (\<exists>l\<in>set scanned. metric_line i l)" using slot_from_None by blast
    with full i have "top = []" by blast
    with sp s None show ?thesis using slot_from_None by auto
  next
    case (Some v)
    obtain n p where v: "v = (n, p)" by (cases v)
    from inv i Some have "slot_from i scanned (Some v)" by metis
    from slot_from_Some[OF this] obtain l where
      l: "l \<in> set scanned" "metric_line i l" "parse_metric (prefixes ! i) l = Inr v"
      by blast
    with sp v Some parse_metric_paired[of "prefixes ! i" l n p] show ?thesis by auto
  qed
  with len show ?thesis by blast
qed

text \<open>
  The theorem at \<open>partial_report\<close>: a pair of values, a bare \<^verbatim>\<open>None\<close> and a pair of
  absent fields.
\<close>

theorem read_coverage_entries_witness:
  "read_coverage partial_report =
     Inr [Some (Some 120, Some (Rounded (853 / 10))), None, Some (None, None)]
   \<and> length [Some (Some (120::int), Some (Rounded (853 / 10))), None, Some (None, None)] = 3
   \<and> (\<exists>l\<in>set (splitlines partial_report).
         metric_line 0 l
       \<and> parse_metric (prefixes ! 0) l = Inr (Some 120, Some (Rounded (853 / 10))))
   \<and> \<not> (\<exists>l\<in>set (splitlines partial_report). metric_line 1 l)
   \<and> (\<exists>l\<in>set (splitlines partial_report).
         metric_line 2 l \<and> parse_metric (prefixes ! 2) l = Inr (None, None))"
proof -
  let ?C = "[Some (Some (120::int), Some (Rounded (853 / 10))), None, Some (None, None)]"
  from read_coverage_entries[OF partial_report_result]
  have len: "length ?C = 3"
    and slots: "\<And>i. i < 3 \<Longrightarrow>
      (case ?C ! i of
         None \<Rightarrow> (\<forall>l\<in>set (splitlines partial_report). \<not> metric_line i l)
       | Some (n, p) \<Rightarrow>
           (n = None) = (p = None)
         \<and> (\<exists>l\<in>set (splitlines partial_report).
               metric_line i l \<and> parse_metric (prefixes ! i) l = Inr (n, p)))"
    by blast+
  from slots[of 0] slots[of 1] slots[of 2] len partial_report_result
  show ?thesis by simp
qed

text \<open>
  C2 as stated fails: on the empty text the three entries are the bare \<^verbatim>\<open>None\<close>, not
  pairs, and the sink's flattening of such a list raises \<^verbatim>\<open>TypeError\<close>.
\<close>

theorem read_coverage_unassigned_counterexample:
  "read_coverage [] = Inr [None, None, None]
   \<and> flatten_cov [None, None, None] = Inl TypeError"
  by (simp add: read_coverage_def splitlines_def)

text \<open>
  C8. The report made of the three summary lines, lines 85.3% (120 of 140), functions
  90.0% (9 of 10) and branches 50.0% (4 of 8), parses to
  \<^verbatim>\<open>[(120, 85.3), (9, 90.0), (4, 50.0)]\<close>.
\<close>

theorem read_coverage_summary_report:
  "read_coverage summary_report
     = Inr [Some (Some 120, Some (Rounded (853 / 10))),
            Some (Some 9, Some (Rounded 90)),
            Some (Some 4, Some (Rounded 50))]"
  unfolding summary_report_def lines_line_def functions_line_def branches_line_def LF_def
  by code_simp

text \<open>
  C9. A line that starts with the prefix of metric \<open>i\<close> and contains no percent sign
  makes the loop body store \<^verbatim>\<open>(None, None)\<close> in slot \<open>i\<close> of the three-entry list
  without raising, whatever the list held before; a text that consists of such a line
  alone parses to the initial list with \<^verbatim>\<open>(None, None)\<close> in slot \<open>i\<close>.
\<close>

theorem no_data_line_absent_pair:
  assumes "i < 3" and "metric_line i line" and "CHR ''%'' \<notin> set line"
  shows "(\<forall>cov. length cov = 3 \<longrightarrow>
            match_prefixes line 0 prefixes cov = Inr (cov[i := Some (None, None)]))
       \<and> (CHR 0x0A \<notin> set line \<and> CHR 0x0D \<notin> set line \<longrightarrow>
            read_coverage line = Inr ([None, None, None][i := Some (None, None)]))"
proof -
  have p: "parse_metric (prefixes ! i) line = Inr (None, None)"
    using assms(3) by (simp add: parse_metric_def)
  have m: "match_prefixes line 0 prefixes cov = Inr (cov[i := Some (None, None)])"
    if "length cov = 3" for cov
    using match_prefixes_hit[OF assms(1,2) that] p by simp
  have ne: "line \<noteq> []"
    using assms(1,2)
    by (auto simp: metric_line_def startswith_def prefixes_def nth_Cons split: nat.splits)
  have "i = 0 \<or> i = 1 \<or> i = 2" using assms(1) by arith
  then have "None \<in> set ([None, None, None :: cov_pair option][i := Some (None, None)])"
    by auto
  then have "read_coverage line = Inr ([None, None, None][i := Some (None, None)])"
    if "CHR 0x0A \<notin> set line" "CHR 0x0D \<notin> set line"
    using splitlines_single[OF that ne] m[of "[None, None, None]"]
    by (simp add: read_coverage_def)
  with m show ?thesis by blast
qed

text \<open>The theorem at the branches line of a first run, which has no data.\<close>

theorem no_data_line_absent_pair_witness:
  "(2::nat) < 3 \<and> metric_line 2 ''  branches...: no data found''
   \<and> CHR ''%'' \<notin> set ''  branches...: no data found''
   \<and> match_prefixes ''  branches...: no data found'' 0 prefixes
        [Some (Some 120, Some (Rounded (853 / 10))), None, None]
       = Inr [Some (Some 120, Some (Rounded (853 / 10))), None, Some (None, None)]
   \<and> read_coverage ''  branches...: no data found'' = Inr [None, None, Some (None, None)]"
proof -
  have a: "(2::nat) < 3" by simp
  have b: "metric_line 2 ''  branches...: no data found''" by code_simp
  have c: "CHR ''%'' \<notin> set ''  branches...: no data found''" by simp
  from no_data_line_absent_pair[OF a b c] a b c show ?thesis by simp
qed

text \<open>
  C10. The parser is not total on prefixed lines with a percent sign: the line
  \<^verbatim>\<open>"  lines......: 85.3%"\<close> starts with the lines prefix and contains a percent sign but
  no opening parenthesis, and the parser raises \<^verbatim>\<open>ValueError\<close> on it instead of returning
  an absent pair.
\<close>

theorem read_coverage_raises_ValueError:
  "\<exists>line. metric_line 0 line \<and> CHR ''%'' \<in> set line \<and> py_find line ''('' = - 1
        \<and> read_coverage line = Inl ValueError"
  by (rule exI[of _ "''  lines......: 85.3%''"]) code_simp

section \<open>Properties of the persistence sink\<close>

lemma build_rows_Inr:
  "build_rows items rev_id suite = Inr rows \<Longrightarrow>
     map row_label rows = map (\<lambda>item. SStr (fst item)) items
   \<and> (\<forall>r\<in>set rows. row_rev r = SStr rev_id)"
proof (induction items arbitrary: rows)
  case Nil
  then show ?case by simp
next
  case (Cons item items)
  obtain test cov where item: "item = (test, cov)" by (cases item)
  from Cons.prems item obtain flat rest where
    r: "build_rows items rev_id suite = Inr rest"
       "rows = ([SStr rev_id, SStr test, SStr suite] @ flat) # rest"
    by (auto split: sum.splits)
  from Cons.IH[OF r(1)] r(2) item show ?case
    by (simp add: row_label_def row_rev_def)
qed

lemma connect_to_db_Inr:
  assumes "connect_to_db env cfg s = Inr db0"
  shows "conn_open db0 \<and> \<not> autocommit db0 \<and> pending db0 = []
       \<and> coverage_table db0 = coverage_table s
       \<and> (\<exists>c. calls db0 = calls s @ [Connect c, Autocommit False])"
  using assms
  by (auto simp: connect_to_db_def split: option.splits)

lemma insert_rows_failure:
  assumes "cursor_error env = None" and "insert_error env rows = Some (k, e)"
    and "\<not> autocommit s"
  shows "insert_rows env rows s =
           (Inl e, s\<lparr>pending := [],
                     calls := calls s @ [Cursor, ExecuteMany rows, Rollback, CursorClose]\<rparr>)"
  using assms
  by (simp add: insert_rows_def db_executemany_def db_rollback_def db_cursor_close_def)

lemma insert_rows_success:
  assumes "cursor_error env = None" and "insert_error env rows = None"
    and "\<not> autocommit s"
  shows "insert_rows env rows s =
           (Inr (), s\<lparr>coverage_table := coverage_table s @ pending s @ rows, pending := [],
                      calls := calls s @ [Cursor, ExecuteMany rows, Commit, CursorClose]\<rparr>)"
  using assms
  by (simp add: insert_rows_def db_executemany_def db_commit_def db_cursor_close_def)

lemma insert_rows_Inr:
  assumes "insert_rows env rows s = (Inr u, s')" "\<not> autocommit s"
  shows "cursor_error env = None \<and> insert_error env rows = None"
  using assms
  by (auto simp: insert_rows_def db_executemany_def split: option.splits prod.splits sum.splits)

lemma store_coverage_Inr:
  assumes "store_coverage ord env cfg tc rev_id suite s = (Inr u, s')"
  shows "\<exists>rows. build_rows (iteritems ord tc) rev_id suite = Inr rows
               \<and> coverage_table s' = coverage_table s @ rows"
proof -
  from assms obtain db0 where c: "connect_to_db env cfg s = Inr db0"
    by (auto simp: store_coverage_def split: sum.splits)
  from connect_to_db_Inr[OF c] have d: "\<not> autocommit db0" "pending db0 = []"
    "coverage_table db0 = coverage_table s" by simp_all
  from assms c obtain rows where b: "build_rows (iteritems ord tc) rev_id suite = Inr rows"
    by (auto simp: store_coverage_def split: sum.splits)
  from assms c b obtain s1 where i: "insert_rows env rows db0 = (Inr u, s1)" "s' = db_close s1"
    by (auto simp: store_coverage_def split: prod.splits)
  from insert_rows_Inr[OF i(1) d(1)] insert_rows_success[of env rows db0] d i
  have "coverage_table s' = coverage_table s @ rows"
    by (simp add: db_close_def)
  with b show ?thesis by blast
qed


lemma store_coverage_closes:
  assumes "\<not> conn_open s"
  shows "\<not> conn_open (snd (store_coverage ord env cfg tc rev_id suite s))"
  using assms
  by (auto simp: store_coverage_def db_close_def split: sum.splits prod.splits)

lemma ex_connect:
  "connect_to_db failing_env ex_config ex_db =
     Inr \<lparr>conn_open = True, autocommit = False, pending = [], coverage_table = [old_row],
          calls = [Connect [''dbhost'', ''cov'', ''coverage'', ''secret''], Autocommit False]\<rparr>"
  by (simp add: connect_to_db_def failing_env_def ex_config_def ex_db_def)

lemma ex_build_rows:
  "build_rows (iteritems (\<lambda>ks. ks) ex_dataset) ''abc123'' ''suite'' = Inr ex_rows"
  by code_simp

subsection \<open>The claim about the sink\<close>

text \<open>
  C3. Let the connection be closed before the call. Then it is closed after the call on
  every way out. When the connection is opened, the rows are built and the cursor is
  created: if the bulk insert raises \<open>e\<close>, the calls are cursor, executemany, rollback,
  cursor close, close, the table is what it was before the call (no row is persisted)
  and \<open>e\<close> is raised to the caller; if the bulk insert succeeds, the calls are cursor,
  executemany, commit, cursor close, close, the call returns normally and the table is
  extended by exactly the rows.
\<close>

theorem store_coverage_transaction:
  assumes "\<not> conn_open s"
  shows "\<not> conn_open (snd (store_coverage ord env cfg tc rev_id suite s))
       \<and> (\<forall>db0 rows.
            connect_to_db env cfg s = Inr db0
          \<and> build_rows (iteritems ord tc) rev_id suite = Inr rows
          \<and> cursor_error env = None \<longrightarrow>
            (case insert_error env rows of
               Some (k, e) \<Rightarrow>
                 store_coverage ord env cfg tc rev_id suite s =
                   (Inl e, db0\<lparr>conn_open := False,
                                calls := calls db0 @ [Cursor, ExecuteMany rows, Rollback,
                                                      CursorClose, Close]\<rparr>)
               \<and> coverage_table (snd (store_coverage ord env cfg tc rev_id suite s))
                   = coverage_table s
             | None \<Rightarrow>
                 store_coverage ord env cfg tc rev_id suite s =
                   (Inr (), db0\<lparr>conn_open := False,
                                 coverage_table := coverage_table s @ rows,
                                 calls := calls db0 @ [Cursor, ExecuteMany rows, Commit,
                                                       CursorClose, Close]\<rparr>)))"
proof -
  have "case insert_error env rows of
          Some (k, e) \<Rightarrow>
            store_coverage ord env cfg tc rev_id suite s =
              (Inl e, db0\<lparr>conn_open := False,
                           calls := calls db0 @ [Cursor, ExecuteMany rows, Rollback,
                                                 CursorClose, Close]\<rparr>)
          \<and> coverage_table (snd (store_coverage ord env cfg tc rev_id suite s))
              = coverage_table s
        | None \<Rightarrow>
            store_coverage ord env cfg tc rev_id suite s =
              (Inr (), db0\<lparr>conn_open := False,
                            coverage_table := coverage_table s @ rows,
                            calls := calls db0 @ [Cursor, ExecuteMany rows, Commit,
                                                  CursorClose, Close]\<rparr>)"
    if c: "connect_to_db env cfg s = Inr db0"
      and b: "build_rows (iteritems ord tc) rev_id suite = Inr rows"
      and cur: "cursor_error env = None"
    for db0 rows
  proof -
    from connect_to_db_Inr[OF c] have d: "\<not> autocommit db0" "pending db0 = []"
      "coverage_table db0 = coverage_table s" by simp_all
    show ?thesis
    proof (cases "insert_error env rows")
      case None
      from insert_rows_success[OF cur None d(1)] c b d None show ?thesis
        by (simp add: store_coverage_def db_close_def)
    next
      case (Some ke)
      obtain k e where ke: "ke = (k, e)" by (cases ke)
      from insert_rows_failure[OF cur Some[unfolded ke] d(1)] c b d Some ke show ?thesis
        by (simp add: store_coverage_def db_close_def)
    qed
  qed
  with store_coverage_closes[OF assms] show ?thesis by blast
qed

text \<open>
  The theorem at a database that fails after the first of two rows: the error reaches
  the caller, the table still holds its one old row, and the transaction was rolled back
  before the connection was closed.
\<close>

theorem store_coverage_transaction_witness:
  "\<not> conn_open ex_db
   \<and> \<not> conn_open (snd (store_coverage (\<lambda>ks. ks) failing_env ex_config ex_dataset
                          ''abc123'' ''suite'' ex_db))
   \<and> fst (store_coverage (\<lambda>ks. ks) failing_env ex_config ex_dataset ''abc123'' ''suite'' ex_db)
       = Inl (ExternalError ''insert failed'')
   \<and> coverage_table (snd (store_coverage (\<lambda>ks. ks) failing_env ex_config ex_dataset
                             ''abc123'' ''suite'' ex_db)) = [old_row]
   \<and> calls (snd (store_coverage (\<lambda>ks. ks) failing_env ex_config ex_dataset
                    ''abc123'' ''suite'' ex_db))
       = [Connect [''dbhost'', ''cov'', ''coverage'', ''secret''], Autocommit False,
          Cursor, ExecuteMany ex_rows, Rollback, CursorClose, Close]"
proof -
  have a: "\<not> conn_open ex_db" by (simp add: ex_db_def)
  have i: "insert_error failing_env ex_rows = Some (1, ExternalError ''insert failed'')"
    by (simp add: failing_env_def)
  have cur: "cursor_error failing_env = None" by (simp add: failing_env_def)
  from store_coverage_transaction[OF a, of "\<lambda>ks. ks" failing_env ex_config ex_dataset
      "''abc123''" "''suite''"] ex_connect ex_build_rows cur i a
  show ?thesis by (simp add: ex_db_def)
qed

section \<open>Properties of the driver\<close>

subsection \<open>Dictionaries\<close>

lemma keys_dict_set: "map fst (dict_set d k v) = add_key (map fst d) k"
proof -
  have "map fst (map (\<lambda>(k', v'). if k' = k then (k', v) else (k', v')) d) = map fst d"
    by (induction d) auto
  then show ?thesis by (simp add: dict_set_def add_key_def)
qed

lemma dict_set_fresh: "k \<notin> fst ` set d \<Longrightarrow> dict_set d k v = d @ [(k, v)]"
  by (simp add: dict_set_def)


lemma distinct_foldl_add_key: "distinct ks \<Longrightarrow> distinct (foldl add_key ks xs)"
  by (induction xs arbitrary: ks) (auto simp: add_key_def)


lemma set_add_key: "set (add_key ks k) = insert k (set ks)"
  by (auto simp: add_key_def)

lemma distinct_add_key: "distinct ks \<Longrightarrow> distinct (add_key ks k)"
  by (simp add: add_key_def)


lemma lookup_items_keys:
  "set ks \<subseteq> fst ` set d \<Longrightarrow>
     map fst (concat (map (\<lambda>k. case map_of d k of None \<Rightarrow> [] | Some v \<Rightarrow> [(k, v)]) ks)) = ks"
proof (induction ks)
  case Nil
  then show ?case by simp
next
  case (Cons k ks)
  then have "k \<in> fst ` set d" by simp
  then obtain v where "map_of d k = Some v"
    by (metis map_of_eq_None_iff not_None_eq)
  with Cons show ?case by simp
qed

lemma iteritems_keys:
  assumes "dict_order_ok ord" "distinct (map fst d)"
  shows "map fst (iteritems ord d) = ord (map fst d)"
proof -
  from assms have "set (ord (map fst d)) = set (map fst d)"
    by (simp add: dict_order_ok_def)
  then have "set (ord (map fst d)) \<subseteq> fst ` set d" by simp
  from lookup_items_keys[OF this] show ?thesis by (simp add: iteritems_def)
qed

lemma iteritems_lookup:
  "(k, v) \<in> set (iteritems ord d) \<Longrightarrow> map_of d k = Some v"
  by (auto simp: iteritems_def split: option.splits)

lemma map_of_graph: "map_of (map (\<lambda>f. (f, g f)) xs) k = Some v \<Longrightarrow> v = g k"
  by (induction xs) (auto split: if_splits)

subsection \<open>The scan\<close>

lemma tests_of_candidates:
  "tests_of fs a = filter (is_candidate fs a) (sort (listdir fs (test_dir a)))"
  unfolding tests_of_def by (rule filter_cong) (simp_all add: is_candidate_def)

lemma load_summaries_eq:
  assumes "distinct ts" "set ts \<inter> fst ` set acc = {}"
  shows "load_summaries fs a ts acc =
           (if \<forall>f\<in>set ts. merged_summary fs a f ''flavor'' \<noteq> None
            then Inr (acc @ map (\<lambda>f. (f, merged_summary fs a f))
                               (filter (\<lambda>f. merged_summary fs a f ''flavor'' = Some ''gcov'') ts))
            else Inl (KeyError ''flavor''))"
  using assms
proof (induction ts arbitrary: acc)
  case Nil
  then show ?case by simp
next
  case (Cons t ts)
  show ?case
  proof (cases "merged_summary fs a t ''flavor''")
    case None
    then show ?thesis by auto
  next
    case (Some fl)
    show ?thesis
    proof (cases "fl = ''gcov''")
      case False
      from Cons.prems have "distinct ts" "set ts \<inter> fst ` set acc = {}" by auto
      from Cons.IH[OF this] Some False show ?thesis by simp
    next
      case True
      let ?acc = "acc @ [(t, merged_summary fs a t)]"
      from Cons.prems have fresh: "t \<notin> fst ` set acc" by auto
      from Cons.prems have "distinct ts" "set ts \<inter> fst ` set ?acc = {}" by auto
      from Cons.IH[OF this] Some True dict_set_fresh[OF fresh] show ?thesis by simp
    qed
  qed
qed

lemma distinct_tests_of:
  "distinct (listdir fs (test_dir a)) \<Longrightarrow> distinct (tests_of fs a)"
  by (simp add: tests_of_def)

lemma eligible_tests_filter:
  "filter (\<lambda>f. merged_summary fs a f ''flavor'' = Some ''gcov'') (tests_of fs a)
     = eligible_tests fs a"
  unfolding tests_of_candidates eligible_tests_def filter_filter
  by (rule filter_cong) (auto simp: is_eligible_def)

lemma scan_tests_eq:
  assumes "distinct (listdir fs (test_dir a))"
  shows "scan_tests fs a =
           (if \<forall>f\<in>set (tests_of fs a). merged_summary fs a f ''flavor'' \<noteq> None
            then (if eligible_tests fs a \<noteq> []
                  then Inr (tests_of fs a,
                            map (\<lambda>f. (f, merged_summary fs a f)) (eligible_tests fs a))
                  else Inl AssertionError)
            else Inl (KeyError ''flavor''))"
  using load_summaries_eq[OF distinct_tests_of[OF assms], of "[]" fs]
  by (simp add: scan_tests_def eligible_tests_filter)

lemma scan_tests_Inr:
  assumes "distinct (listdir fs (test_dir a))" "scan_tests fs a = Inr (tests, ts)"
  shows "tests = tests_of fs a
       \<and> ts = map (\<lambda>f. (f, merged_summary fs a f)) (eligible_tests fs a)
       \<and> eligible_tests fs a \<noteq> []"
  using assms(2) unfolding scan_tests_eq[OF assms(1)]
  by (auto split: if_splits)

lemma eligible_tests_props:
  "sorted (eligible_tests fs a)"
  "distinct (listdir fs (test_dir a)) \<Longrightarrow> distinct (eligible_tests fs a)"
  "set (eligible_tests fs a) = {f \<in> set (listdir fs (test_dir a)). is_eligible fs a f}"
  by (auto simp: eligible_tests_def sorted_filter[where f = "\<lambda>x. x", simplified])


subsection \<open>The loop\<close>

lemma analyze_tests_Inr:
  "analyze_tests tls a items (tc, out, summ) acts = (Inr (tc', out', summ'), acts') \<Longrightarrow>
     map fst tc' = foldl add_key (map fst tc) (map item_label items)
   \<and> (items = [] \<longrightarrow> summ' = summ \<and> out' = out)
   \<and> (items \<noteq> [] \<longrightarrow> summ' = Some (snd (last items)) \<and> out' \<noteq> None)"
proof (induction items arbitrary: tc out summ acts)
  case Nil
  then show ?case by simp
next
  case (Cons item items)
  obtain test summary where item: "item = (test, summary)" by (cases item)
  have lab: "item_label (test, summary)
               = (case summary ''description'' of None \<Rightarrow> test | Some d \<Rightarrow> d)"
    by (simp add: item_label_def split: option.splits)
  from Cons.prems obtain cov out1 acts1 where
    step: "analyze_tests tls a items
             (dict_set tc (item_label item) cov, Some out1, Some summary) acts1
           = (Inr (tc', out', summ'), acts')"
    unfolding item lab by (auto simp: Let_def split: sum.splits)
  from Cons.IH[OF step] item show ?case
    by (cases items) (auto simp: keys_dict_set)
qed

lemma path_join_relative:
  "\<not> startswith b ''/'' \<Longrightarrow>
     path_join t b = (if t = [] \<or> last t = CHR ''/'' then t else t @ ''/'') @ b"
  by (simp add: path_join_def)

lemma not_init_analyze:
  "\<not> is_init_call a (Run (path_join (cov_tools_dir a) ''cov-analyze.sh'' # rest))"
  by (simp add: path_join_relative startswith_def)

lemma length_init_path: "length (path_join t ''cov-init.sh'') \<ge> 11"
  by (simp add: path_join_relative startswith_def)

lemma not_init_lcov: "\<not> is_init_call a (Run (''lcov'' # rest))"
proof -
  have "length (path_join (cov_tools_dir a) ''cov-init.sh'') \<noteq> length ''lcov''"
    using length_init_path[of "cov_tools_dir a"] by simp
  then have "path_join (cov_tools_dir a) ''cov-init.sh'' \<noteq> ''lcov''" by metis
  then show ?thesis by auto
qed

lemma not_init_genhtml: "\<not> is_init_call a (Run (''genhtml'' # rest))"
proof -
  have "length (path_join (cov_tools_dir a) ''cov-init.sh'') \<noteq> length ''genhtml''"
    using length_init_path[of "cov_tools_dir a"] by simp
  then have "path_join (cov_tools_dir a) ''cov-init.sh'' \<noteq> ''genhtml''" by metis
  then show ?thesis by auto
qed

lemma analyze_tests_actions:
  "analyze_tests tls a items vars acts = (r, acts') \<Longrightarrow>
     \<exists>new. acts' = acts @ new \<and> filter (is_init_call a) new = []"
proof (induction items arbitrary: vars acts)
  case Nil
  then show ?case by simp
next
  case (Cons item items)
  obtain test summary where item: "item = (test, summary)" by (cases item)
  obtain tc out summ where vars: "vars = (tc, out, summ)" by (cases vars)
  let ?argv1 = "[path_join (cov_tools_dir a) ''cov-analyze.sh'', ''-t'',
                 path_join (test_dir a) test, ''-d'', lcov_output a, ''-o'', test]"
  show ?case
  proof (cases "read_coverage (stdout tls acts ?argv1)")
    case (Inl e)
    with Cons.prems item vars have "acts' = acts @ [Run ?argv1]"
      by (simp add: Let_def)
    then show ?thesis using not_init_analyze[of a] by simp
  next
    case (Inr cov)
    let ?argv2 = "[''lcov'', ''-a'', path_join (lcov_output a) (test @ ''.lcov''),
                   ''-a'', path_join (lcov_output a) ''total.lcov'',
                   ''-o'', path_join (lcov_output a) ''total_tmp.lcov'']"
    let ?step = "[Run ?argv1, Run ?argv2,
                  Rename (path_join (lcov_output a) ''total_tmp.lcov'')
                         (path_join (lcov_output a) ''total.lcov'')]"
    from Cons.prems item vars Inr obtain vars' where
      "analyze_tests tls a items vars' (acts @ ?step) = (r, acts')"
      by (simp add: Let_def)
    from Cons.IH[OF this] obtain new where
      new: "acts' = (acts @ ?step) @ new" "filter (is_init_call a) new = []" by blast
    have "filter (is_init_call a) (?step @ new) = []"
      using new(2) not_init_analyze[of a] not_init_lcov[of a] by simp
    with new(1) show ?thesis by (intro exI[of _ "?step @ new"]) simp
  qed
qed

lemma gen_html_actions:
  "gen_html tls a suite acts = (r, acts') \<Longrightarrow>
     \<exists>new. acts' = acts @ new \<and> filter (is_init_call a) new = []"
  using not_init_genhtml[of a]
  by (auto simp: gen_html_def Let_def split: option.splits if_splits)

lemma finish_actions:
  "\<exists>new. actions (snd (finish ord tls env a suite vars acts s)) = acts @ new
        \<and> filter (is_init_call a) new = []"
proof -
  obtain r acts' where g: "gen_html tls a suite acts = (r, acts')"
    by (cases "gen_html tls a suite acts")
  from gen_html_actions[OF g] obtain new where
    new: "acts' = acts @ new" "filter (is_init_call a) new = []" by blast
  have "actions (snd (finish ord tls env a suite vars acts s)) = acts
      \<or> actions (snd (finish ord tls env a suite vars acts s)) = acts'"
    using g
    by (auto simp: finish_def split: prod.splits option.splits sum.splits)
  with new show ?thesis by auto
qed

subsection \<open>The run\<close>

lemma finish_Inr:
  assumes "finish ord tls env a suite (tc, out, summ) acts s = (Inr u, w')"
  shows "\<exists>output cov summary rev_id.
           out = Some output \<and> read_coverage output = Inr cov
         \<and> summ = Some summary \<and> summary ''ceph-sha1'' = Some rev_id
         \<and> store_coverage ord env (teuthology_config a)
               (dict_set tc (total_label suite) cov) rev_id suite s = (Inr u, db w')"
  using assms
  by (auto simp: finish_def split: option.splits sum.splits prod.splits)

lemma scan_tests_tests:
  "scan_tests fs a = Inr (tests, ts) \<Longrightarrow> tests = tests_of fs a \<and> tests \<noteq> []"
  by (cases "tests_of fs a") (auto simp: scan_tests_def split: sum.splits if_splits)

text \<open>The items the loop runs over: the eligible tests in the order of the dictionary.\<close>

lemma loop_items:
  assumes ok: "dict_order_ok ord" and d: "distinct (eligible_tests fs a)"
  defines "items \<equiv> iteritems ord (map (\<lambda>f. (f, merged_summary fs a f)) (eligible_tests fs a))"
  shows "map fst items = ord (eligible_tests fs a)"
    and "map item_label items = map (label_of fs a) (ord (eligible_tests fs a))"
    and "items \<noteq> [] \<Longrightarrow> snd (last items) = merged_summary fs a (last (ord (eligible_tests fs a)))"
proof -
  let ?ts = "map (\<lambda>f. (f, merged_summary fs a f)) (eligible_tests fs a)"
  have keys: "map fst ?ts = eligible_tests fs a" by (simp add: comp_def)
  with iteritems_keys[OF ok, of ?ts] d
  show k: "map fst items = ord (eligible_tests fs a)" by (simp add: items_def)
  have val: "snd item = merged_summary fs a (fst item)" if "item \<in> set items" for item
  proof -
    from that have "(fst item, snd item) \<in> set (iteritems ord ?ts)" by (simp add: items_def)
    from map_of_graph[OF iteritems_lookup[OF this]] show ?thesis .
  qed
  have "map item_label items = map (label_of fs a) (map fst items)"
    using val by (auto simp: label_of_def item_label_def split: option.splits)
  with k show "map item_label items = map (label_of fs a) (ord (eligible_tests fs a))"
    by simp
  show "snd (last items) = merged_summary fs a (last (ord (eligible_tests fs a)))"
    if "items \<noteq> []"
  proof -
    from that have "last items \<in> set items" by simp
    from val[OF this] have "snd (last items) = merged_summary fs a (last (map fst items))"
      using that by (simp add: last_map)
    with k show ?thesis by simp
  qed
qed

lemma analyze_run_Inr:
  assumes ok: "dict_order_ok ord"
    and d: "distinct (listdir fs (test_dir a))"
    and run: "analyze_run ord tls env fs a w = (Inr u, w')"
  shows "\<exists>tc cov rev_id rows.
           map fst tc = foldl add_key [] (map (label_of fs a) (ord (eligible_tests fs a)))
         \<and> eligible_tests fs a \<noteq> []
         \<and> merged_summary fs a (last (ord (eligible_tests fs a))) ''ceph-sha1'' = Some rev_id
         \<and> build_rows (iteritems ord (dict_set tc (total_label (basename (test_dir a))) cov))
               rev_id (basename (test_dir a)) = Inr rows
         \<and> coverage_table (db w') = coverage_table (db w) @ rows"
proof -
  let ?E = "eligible_tests fs a"
  let ?ts = "map (\<lambda>f. (f, merged_summary fs a f)) ?E"
  let ?items = "iteritems ord ?ts"
  let ?suite = "basename (test_dir a)"
  from run obtain tests ts where scan: "scan_tests fs a = Inr (tests, ts)"
    by (auto simp: analyze_run_def split: sum.splits)
  from scan_tests_Inr[OF d scan] have ts: "ts = ?ts" and ne: "?E \<noteq> []" by simp_all
  from run scan obtain acts where
    init: "init_coverage tls a tests ?suite (actions w) = (Inr (), acts)"
    by (auto simp: analyze_run_def Let_def split: sum.splits prod.splits)
  from run scan init ts obtain tc out summ acts' where
    loop: "analyze_tests tls a ?items ([], None, None) acts = (Inr (tc, out, summ), acts')"
    and fin: "finish ord tls env a ?suite (tc, out, summ) acts' (db w) = (Inr u, w')"
    by (auto simp: analyze_run_def Let_def split: sum.splits prod.splits)
  have dE: "distinct ?E" using eligible_tests_props(2)[OF d] .
  note it = loop_items[OF ok dE]
  from ok dE have "set (ord ?E) = set ?E" by (simp add: dict_order_ok_def)
  with ne it(1) have items_ne: "?items \<noteq> []" by (metis list.map_disc_iff set_empty)
  from analyze_tests_Inr[OF loop] items_ne it(2)
  have keys: "map fst tc = foldl add_key [] (map (label_of fs a) (ord ?E))"
    and summ: "summ = Some (snd (last ?items))" by simp_all
  from finish_Inr[OF fin] obtain cov summary rev_id where
    f: "summ = Some summary" "summary ''ceph-sha1'' = Some rev_id"
       "store_coverage ord env (teuthology_config a)
          (dict_set tc (total_label ?suite) cov) rev_id ?suite (db w) = (Inr u, db w')"
    by blast
  from f(1,2) summ it(3)[OF items_ne]
  have rev: "merged_summary fs a (last (ord ?E)) ''ceph-sha1'' = Some rev_id" by simp
  from store_coverage_Inr[OF f(3)] obtain rows where
    "build_rows (iteritems ord (dict_set tc (total_label ?suite) cov)) rev_id ?suite = Inr rows"
    "coverage_table (db w') = coverage_table (db w) @ rows" by blast
  with keys ne rev show ?thesis by blast
qed

text \<open>The labels of the rows of a successful run.\<close>

lemma run_row_labels:
  assumes ok: "dict_order_ok ord"
    and d: "distinct (listdir fs (test_dir a))"
    and run: "analyze_run ord tls env fs a w = (Inr u, w')"
  shows "\<exists>rows rev_id.
           coverage_table (db w') = coverage_table (db w) @ rows
         \<and> eligible_tests fs a \<noteq> []
         \<and> merged_summary fs a (last (ord (eligible_tests fs a))) ''ceph-sha1'' = Some rev_id
         \<and> (\<forall>r\<in>set rows. row_rev r = SStr rev_id)
         \<and> map row_label rows =
             map SStr (ord (add_key
                              (foldl add_key [] (map (label_of fs a) (ord (eligible_tests fs a))))
                              (total_label (basename (test_dir a)))))"
proof -
  let ?total = "total_label (basename (test_dir a))"
  let ?K = "add_key (foldl add_key [] (map (label_of fs a) (ord (eligible_tests fs a)))) ?total"
  from analyze_run_Inr[OF ok d run] obtain tc cov rev_id rows where
    keys: "map fst tc = foldl add_key [] (map (label_of fs a) (ord (eligible_tests fs a)))"
    and ne: "eligible_tests fs a \<noteq> []"
    and rev: "merged_summary fs a (last (ord (eligible_tests fs a))) ''ceph-sha1'' = Some rev_id"
    and rows: "build_rows (iteritems ord (dict_set tc ?total cov)) rev_id (basename (test_dir a))
                 = Inr rows"
    and tab: "coverage_table (db w') = coverage_table (db w) @ rows"
    by blast
  have K: "map fst (dict_set tc ?total cov) = ?K"
    by (simp add: keys_dict_set keys)
  have "distinct ?K" by (intro distinct_add_key distinct_foldl_add_key) simp
  with iteritems_keys[OF ok, of "dict_set tc ?total cov"] K
  have it: "map fst (iteritems ord (dict_set tc ?total cov)) = ord ?K" by simp
  have "map (\<lambda>item. SStr (fst item)) (iteritems ord (dict_set tc ?total cov))
          = map SStr (map fst (iteritems ord (dict_set tc ?total cov)))"
    by simp
  with build_rows_Inr[OF rows] it
  have "map row_label rows = map SStr (ord ?K)" "\<forall>r\<in>set rows. row_rev r = SStr rev_id"
    by presburger+
  with tab ne rev show ?thesis by blast
qed

subsection \<open>The text of files is never read\<close>

lemma tests_of_file_text: "tests_of (fs\<lparr>file_text := g\<rparr>) a = tests_of fs a"
  by (simp add: tests_of_def)

lemma merged_summary_file_text:
  "merged_summary (fs\<lparr>file_text := g\<rparr>) a t = merged_summary fs a t"
  by (simp add: merged_summary_def)

lemma load_summaries_file_text:
  "load_summaries (fs\<lparr>file_text := g\<rparr>) a ts acc = load_summaries fs a ts acc"
  by (induction ts arbitrary: acc)
     (simp_all add: merged_summary_file_text split: option.splits)

lemma scan_tests_file_text: "scan_tests (fs\<lparr>file_text := g\<rparr>) a = scan_tests fs a"
  by (simp add: scan_tests_def tests_of_file_text load_summaries_file_text
           split: sum.splits)

lemma analyze_run_file_text:
  "analyze_run ord tls env (fs\<lparr>file_text := g\<rparr>) a w = analyze_run ord tls env fs a w"
  by (simp add: analyze_run_def scan_tests_file_text)

subsection \<open>The actions of a run\<close>

lemma analyze_run_init_actions:
  fixes a :: args and fs :: filesystem and tls :: tools and w :: world and build_dir :: string
  assumes "\<not> skip_init a"
    and scan: "scan_tests fs a = Inr (tests, ts)"
    and cfg: "teuthology_config a ''ceph_build_output_dir'' = Some build_dir"
  defines "argv \<equiv> init_argv a (hd (tests_of fs a)) build_dir"
  defines "rc \<equiv> exit_status tls (actions w) argv"
  shows "\<exists>post. actions (snd (analyze_run ord tls env fs a w)) = actions w @ Run argv # post
          \<and> filter (is_init_call a) post = []
          \<and> (if rc = 0
             then \<exists>post'. post = Copy (path_join (lcov_output a) ''base.lcov'')
                                       (path_join (lcov_output a) ''total.lcov'') # post'
             else post = [] \<and> fst (analyze_run ord tls env fs a w) = Inl (CalledProcessError rc))"
proof -
  let ?suite = "basename (test_dir a)"
  let ?copy = "Copy (path_join (lcov_output a) ''base.lcov'')
                    (path_join (lcov_output a) ''total.lcov'')"
  from scan_tests_tests[OF scan] have t: "tests = tests_of fs a" and ne: "tests \<noteq> []"
    by blast+
  from ne obtain t0 rest where tests: "tests = t0 # rest" by (meson neq_Nil_conv)
  with t have hd: "hd (tests_of fs a) = t0" by (metis list.sel(1))
  have init: "init_coverage tls a tests ?suite (actions w) =
                (if rc \<noteq> 0 then (Inl (CalledProcessError rc), actions w @ [Run argv])
                 else (Inr (), actions w @ [Run argv, ?copy]))"
    using assms(1) cfg tests hd
    by (simp add: init_coverage_def init_argv_def argv_def rc_def Let_def)
  show ?thesis
  proof (cases "rc = 0")
    case False
    with init scan show ?thesis
      by (simp add: analyze_run_def Let_def)
  next
    case True
    let ?acts = "actions w @ [Run argv, ?copy]"
    obtain r acts' where
      loop: "analyze_tests tls a (iteritems ord ts) ([], None, None) ?acts = (r, acts')"
      by (cases "analyze_tests tls a (iteritems ord ts) ([], None, None) ?acts")
    from analyze_tests_actions[OF loop] obtain new1 where
      n1: "acts' = ?acts @ new1" "filter (is_init_call a) new1 = []" by blast
    have "\<exists>new2. actions (snd (analyze_run ord tls env fs a w)) = acts' @ new2
                \<and> filter (is_init_call a) new2 = []"
    proof (cases r)
      case (Inl e)
      with init scan True loop show ?thesis
        by (simp add: analyze_run_def Let_def)
    next
      case (Inr vars)
      with init scan True loop
      have "analyze_run ord tls env fs a w = finish ord tls env a ?suite vars acts' (db w)"
        by (simp add: analyze_run_def Let_def)
      with finish_actions[of ord tls env a ?suite vars acts' "db w"] show ?thesis by simp
    qed
    then obtain new2 where
      n2: "actions (snd (analyze_run ord tls env fs a w)) = acts' @ new2"
          "filter (is_init_call a) new2 = []" by blast
    from n1 n2 True show ?thesis
      by (intro exI[of _ "?copy # new1 @ new2"]) simp
  qed
qed

subsection \<open>Evaluated runs\<close>

lemma ex_listdir_distinct: "distinct (listdir ex_fs (test_dir ex_args))"
  by code_simp

lemma ex_tests_of: "tests_of ex_fs ex_args = [''a'', ''b'', ''c'']"
  by code_simp

lemma ex_eligible: "eligible_tests ex_fs ex_args = [''b'', ''c'']"
  by code_simp



lemma ex_run:
  "analyze_run (\<lambda>ks. ks) ex_tools working_env ex_fs ex_args ex_world = (Inr (), ex_final_world)"
  by code_simp

lemma dict_order_ok_id: "dict_order_ok (\<lambda>ks. ks)"
  by (simp add: dict_order_ok_def)



lemma ex_flavors:
  "\<forall>f\<in>set (listdir ex_fs (test_dir ex_args)).
      is_candidate ex_fs ex_args f \<longrightarrow> merged_summary ex_fs ex_args f ''flavor'' \<noteq> None"
  by code_simp


lemma ex_scan:
  "scan_tests ex_fs ex_args =
     Inr ([''a'', ''b'', ''c''],
          map (\<lambda>f. (f, merged_summary ex_fs ex_args f)) [''b'', ''c''])"
proof -
  have "\<forall>f\<in>set (tests_of ex_fs ex_args). merged_summary ex_fs ex_args f ''flavor'' \<noteq> None"
    using ex_flavors by (auto simp: tests_of_candidates)
  with scan_tests_eq[OF ex_listdir_distinct] show ?thesis
    by (simp add: ex_tests_of ex_eligible)
qed

lemma ex_init_argv:
  "init_argv ex_args ''a'' ''/build''
     = [''../../coverage/cov-init.sh'', ''/r/suite/a'', ''/out'', ''/build/suite.tgz'']"
  by code_simp

lemma ex_last_rev:
  "merged_summary ex_fs ex_args ''c'' ''ceph-sha1'' = Some ''c1c1''"
  by code_simp


subsection \<open>The claims about the driver\<close>



text \<open>
  C5 (as amended). When initialisation is not skipped, the scan has returned and the
  build directory is configured, the first action of the run is the call of
  \<^verbatim>\<open>cov-init.sh\<close> with the result directory of the first candidate as template: the
  lexically first visible subdirectory that holds both files, whatever its flavor. No
  later action of the run calls the initialiser. When the call returns status 0 the
  next action copies \<^verbatim>\<open>base.lcov\<close> to \<^verbatim>\<open>total.lcov\<close>; otherwise the run stops there
  with \<^verbatim>\<open>CalledProcessError\<close>.
\<close>

theorem init_once_first_candidate:
  assumes "\<not> skip_init a"
    and "scan_tests fs a = Inr (tests, test_summaries)"
    and "teuthology_config a ''ceph_build_output_dir'' = Some build_dir"
  shows "\<exists>template post.
           filter (is_candidate fs a) (sort (listdir fs (test_dir a))) \<noteq> []
         \<and> template = hd (filter (is_candidate fs a) (sort (listdir fs (test_dir a))))
         \<and> actions (snd (analyze_run ord tls env fs a w))
             = actions w @ Run (init_argv a template build_dir) # post
         \<and> filter (is_init_call a) (Run (init_argv a template build_dir) # post)
             = [Run (init_argv a template build_dir)]
         \<and> (if exit_status tls (actions w) (init_argv a template build_dir) = 0
            then \<exists>post'. post = Copy (path_join (lcov_output a) ''base.lcov'')
                                      (path_join (lcov_output a) ''total.lcov'') # post'
            else post = []
               \<and> fst (analyze_run ord tls env fs a w)
                   = Inl (CalledProcessError
                            (exit_status tls (actions w) (init_argv a template build_dir))))"
proof -
  from analyze_run_init_actions[OF assms, where tls = tls and w = w and ord = ord and env = env]
  obtain post where
    p: "actions (snd (analyze_run ord tls env fs a w))
          = actions w @ Run (init_argv a (hd (tests_of fs a)) build_dir) # post"
       "filter (is_init_call a) post = []"
       "if exit_status tls (actions w) (init_argv a (hd (tests_of fs a)) build_dir) = 0
        then \<exists>post'. post = Copy (path_join (lcov_output a) ''base.lcov'')
                                  (path_join (lcov_output a) ''total.lcov'') # post'
        else post = []
           \<and> fst (analyze_run ord tls env fs a w)
               = Inl (CalledProcessError
                        (exit_status tls (actions w)
                           (init_argv a (hd (tests_of fs a)) build_dir)))"
    by blast
  from scan_tests_tests[OF assms(2)] have ne: "tests_of fs a \<noteq> []" by blast
  have init: "is_init_call a (Run (init_argv a (hd (tests_of fs a)) build_dir))"
    by (simp add: init_argv_def)
  from p(1,3) p(2) init ne show ?thesis
    unfolding tests_of_candidates
    by (intro exI[of _ "hd (filter (is_candidate fs a) (sort (listdir fs (test_dir a))))"]
              exI[of _ post]) simp
qed

text \<open>The theorem at \<open>ex_fs\<close>: the template is \<^verbatim>\<open>/r/suite/a\<close>.\<close>

theorem init_once_first_candidate_witness:
  "\<not> skip_init ex_args
   \<and> scan_tests ex_fs ex_args =
       Inr ([''a'', ''b'', ''c''],
            map (\<lambda>f. (f, merged_summary ex_fs ex_args f)) [''b'', ''c''])
   \<and> teuthology_config ex_args ''ceph_build_output_dir'' = Some ''/build''
   \<and> (\<exists>post. actions (snd (analyze_run (\<lambda>ks. ks) ex_tools working_env ex_fs ex_args ex_world))
               = Run [''../../coverage/cov-init.sh'', ''/r/suite/a'', ''/out'',
                      ''/build/suite.tgz'']
                 # Copy ''/out/base.lcov'' ''/out/total.lcov'' # post
             \<and> filter (is_init_call ex_args) post = [])"
proof -
  have a: "\<not> skip_init ex_args" by (simp add: ex_args_def)
  have c: "teuthology_config ex_args ''ceph_build_output_dir'' = Some ''/build''"
    by (simp add: ex_args_def ex_config_def)
  have t: "hd (filter (is_candidate ex_fs ex_args) (sort (listdir ex_fs (test_dir ex_args))))
             = ''a''"
    using ex_tests_of by (simp add: tests_of_candidates)
  have rc: "exit_status ex_tools acts argv = 0" for acts argv
    by (simp add: ex_tools_def)
  have paths: "path_join (lcov_output ex_args) ''base.lcov'' = ''/out/base.lcov''"
    "path_join (lcov_output ex_args) ''total.lcov'' = ''/out/total.lcov''"
    by code_simp+
  have w: "actions ex_world = []" by (simp add: ex_world_def)
  from init_once_first_candidate[OF a ex_scan c, where ord = "\<lambda>ks. ks" and tls = ex_tools
      and env = working_env and w = ex_world]
  obtain template post where
    tp: "template = hd (filter (is_candidate ex_fs ex_args)
                          (sort (listdir ex_fs (test_dir ex_args))))"
    and acts: "actions (snd (analyze_run (\<lambda>ks. ks) ex_tools working_env ex_fs ex_args ex_world))
                 = actions ex_world @ Run (init_argv ex_args template ''/build'') # post"
    and once: "filter (is_init_call ex_args) (Run (init_argv ex_args template ''/build'') # post)
                 = [Run (init_argv ex_args template ''/build'')]"
    and copy: "if exit_status ex_tools (actions ex_world) (init_argv ex_args template ''/build'') = 0
               then \<exists>post'. post = Copy (path_join (lcov_output ex_args) ''base.lcov'')
                                         (path_join (lcov_output ex_args) ''total.lcov'') # post'
               else post = []
                  \<and> fst (analyze_run (\<lambda>ks. ks) ex_tools working_env ex_fs ex_args ex_world)
                      = Inl (CalledProcessError
                               (exit_status ex_tools (actions ex_world)
                                  (init_argv ex_args template ''/build'')))"
    by blast
  from tp t have tmpl: "init_argv ex_args template ''/build''
      = [''../../coverage/cov-init.sh'', ''/r/suite/a'', ''/out'', ''/build/suite.tgz'']"
    by (simp add: ex_init_argv)
  from copy rc obtain post' where post: "post = Copy ''/out/base.lcov'' ''/out/total.lcov'' # post'"
    by (auto simp: paths)
  have "is_init_call ex_args (Run (init_argv ex_args template ''/build''))"
    by (simp add: init_argv_def)
  with once post have "filter (is_init_call ex_args) post' = []" by simp
  with acts tmpl post w a c ex_scan show ?thesis by simp
qed

text \<open>
  C5 as stated fails: in \<open>ex_fs\<close> the first eligible test is \<^verbatim>\<open>b\<close>, and the initialiser
  is called with the directory of \<^verbatim>\<open>a\<close>, which ran without coverage.
\<close>

theorem init_template_counterexample:
  "eligible_tests ex_fs ex_args = [''b'', ''c'']
   \<and> \<not> is_eligible ex_fs ex_args ''a''
   \<and> hd (actions (snd (analyze_run (\<lambda>ks. ks) ex_tools working_env ex_fs ex_args ex_world)))
       = Run [''../../coverage/cov-init.sh'', ''/r/suite/a'', ''/out'', ''/build/suite.tgz'']"
proof -
  have "\<not> is_eligible ex_fs ex_args ''a''" by code_simp
  then show ?thesis
    using ex_eligible by (simp add: ex_run ex_final_world_def ex_actions_def)
qed




text \<open>
  C7 (as amended). After a successful run every appended row carries the same
  revision: the value of the key \<^verbatim>\<open>ceph-sha1\<close> in the merged summary of the eligible test
  the loop processed last. The file \<^verbatim>\<open>ceph-sha1\<close> is only tested for existence: the
  driver reads no file except through the YAML documents of \<^verbatim>\<open>summary.yaml\<close>, so the
  run is the same whatever text reading a file would give.
\<close>

theorem revision_from_last_summary:
  assumes "dict_order_ok ord"
    and "distinct (listdir fs (test_dir a))"
    and "analyze_run ord tls env fs a w = (Inr u, w')"
  shows "\<exists>rows rev_id.
           coverage_table (db w') = coverage_table (db w) @ rows
         \<and> rows \<noteq> []
         \<and> eligible_tests fs a \<noteq> []
         \<and> merged_summary fs a (last (ord (eligible_tests fs a))) ''ceph-sha1'' = Some rev_id
         \<and> (\<forall>r\<in>set rows. row_rev r = SStr rev_id)
         \<and> (\<forall>g. analyze_run ord tls env (fs\<lparr>file_text := g\<rparr>) a w
                  = analyze_run ord tls env fs a w)"
proof -
  let ?K = "add_key (foldl add_key [] (map (label_of fs a) (ord (eligible_tests fs a))))
                    (total_label (basename (test_dir a)))"
  from run_row_labels[OF assms] obtain rows rev_id where
    r: "coverage_table (db w') = coverage_table (db w) @ rows"
       "eligible_tests fs a \<noteq> []"
       "merged_summary fs a (last (ord (eligible_tests fs a))) ''ceph-sha1'' = Some rev_id"
       "\<forall>r\<in>set rows. row_rev r = SStr rev_id"
       "map row_label rows = map SStr (ord ?K)"
    by blast
  have "distinct ?K" by (intro distinct_add_key distinct_foldl_add_key) simp
  with assms(1) have "set (ord ?K) = set ?K" by (simp add: dict_order_ok_def)
  then have "ord ?K \<noteq> []" by (auto simp: set_add_key)
  with r(5) have "rows \<noteq> []" by (metis list.map_disc_iff)
  moreover have "\<forall>g. analyze_run ord tls env (fs\<lparr>file_text := g\<rparr>) a w
                      = analyze_run ord tls env fs a w"
    by (simp add: analyze_run_file_text)
  ultimately show ?thesis using r(1-4) by blast
qed

text \<open>The theorem at \<open>ex_fs\<close>: the revision of every row is that of the summary of \<^verbatim>\<open>c\<close>.\<close>

theorem revision_from_last_summary_witness:
  "dict_order_ok (\<lambda>ks. ks)
   \<and> distinct (listdir ex_fs (test_dir ex_args))
   \<and> analyze_run (\<lambda>ks. ks) ex_tools working_env ex_fs ex_args ex_world = (Inr (), ex_final_world)
   \<and> merged_summary ex_fs ex_args (last (eligible_tests ex_fs ex_args)) ''ceph-sha1''
       = Some ''c1c1''
   \<and> (\<exists>rows. coverage_table (db ex_final_world) = coverage_table (db ex_world) @ rows
            \<and> rows \<noteq> []
            \<and> list_all (\<lambda>r. row_rev r = SStr ''c1c1'') rows)"
proof -
  have last: "merged_summary ex_fs ex_args (last (eligible_tests ex_fs ex_args)) ''ceph-sha1''
                = Some ''c1c1''"
    using ex_last_rev by (simp add: ex_eligible)
  from revision_from_last_summary[OF dict_order_ok_id ex_listdir_distinct ex_run]
  obtain rows rev_id where
    r: "coverage_table (db ex_final_world) = coverage_table (db ex_world) @ rows"
       "rows \<noteq> []"
       "merged_summary ex_fs ex_args (last (eligible_tests ex_fs ex_args)) ''ceph-sha1''
          = Some rev_id"
       "\<forall>r\<in>set rows. row_rev r = SStr rev_id"
    by blast
  from r(3) last have "rev_id = ''c1c1''" by simp
  with r(4) have "list_all (\<lambda>r. row_rev r = SStr ''c1c1'') rows"
    by (simp add: list_all_iff)
  with r(1,2) last dict_order_ok_id ex_listdir_distinct ex_run show ?thesis by blast
qed

text \<open>
  C7 as stated fails: in \<open>ex_fs\<close> the marker files hold \<^verbatim>\<open>ffff\<close> and the summary of
  \<^verbatim>\<open>b\<close> gives \<^verbatim>\<open>b1b1\<close>, and every row, the row of \<^verbatim>\<open>test-b\<close> too, carries \<^verbatim>\<open>c1c1\<close>.
\<close>

theorem revision_marker_counterexample:
  "file_text ex_fs ''/r/suite/b/ceph-sha1'' = ''ffff''
   \<and> file_text ex_fs ''/r/suite/c/ceph-sha1'' = ''ffff''
   \<and> merged_summary ex_fs ex_args ''b'' ''ceph-sha1'' = Some ''b1b1''
   \<and> coverage_table (db ex_world) = [old_row]
   \<and> map (\<lambda>r. (row_rev r, row_label r))
        (coverage_table (db (snd (analyze_run (\<lambda>ks. ks) ex_tools working_env ex_fs ex_args
                                   ex_world))))
       = [(SStr ''000000'', SStr ''old''), (SStr ''c1c1'', SStr ''test-b''),
          (SStr ''c1c1'', SStr ''c''), (SStr ''c1c1'', SStr ''total for suite'')]"
proof -
  have b: "merged_summary ex_fs ex_args ''b'' ''ceph-sha1'' = Some ''b1b1''" by code_simp
  have f: "file_text ex_fs p = ''ffff''" for p
    by (simp add: ex_fs_def)
  have w: "coverage_table (db ex_world) = [old_row]"
    by (simp add: ex_world_def ex_db_def)
  have t: "map (\<lambda>r. (row_rev r, row_label r))
        (coverage_table (db (snd (analyze_run (\<lambda>ks. ks) ex_tools working_env ex_fs ex_args
                                   ex_world))))
       = [(SStr ''000000'', SStr ''old''), (SStr ''c1c1'', SStr ''test-b''),
          (SStr ''c1c1'', SStr ''c''), (SStr ''c1c1'', SStr ''total for suite'')]"
    by (simp add: ex_run ex_final_world_def ex_run_rows_def old_row_def row_rev_def
                  row_label_def)
  show ?thesis
    by (rule conjI b f w t)+
qed

end
